theory Spec2Isabelle
  imports Main "HOL-Library.Word"
begin

section \<open>The PSA crypto secure partition: data model\<close>

text \<open>
  The development embeds \<^verbatim>\<open>psa_crypto_partition.c\<close>: the hash clone slot pool, the
  init/free reference counter, the per-service handlers and the dispatch loop.
  Pointers are addresses (\<open>NULL\<close> is address 0), \<^verbatim>\<open>size_t\<close> values are naturals,
  \<^verbatim>\<open>int32_t\<close> partition identities are 32-bit words (\<open>sint\<close> reads them as signed;
  the code only compares them for equality), key handles are 16-bit words
  (\<^verbatim>\<open>typedef uint16_t psa_key_handle_t\<close> in \<^verbatim>\<open>crypto_platform.h\<close>) and the clone
  reference count is an 8-bit word, so that \<open>+ 1\<close> and \<open>- 1\<close> wrap as \<^verbatim>\<open>uint8_t\<close> does.
\<close>

type_synonym ptr = nat
type_synonym int32_t = "32 word"
type_synonym uint8_t = "8 word"
type_synonym uint32_t = "32 word"
type_synonym psa_key_handle_t = "16 word"

definition NULL :: ptr where
  "NULL = 0"

text \<open>The size in bytes of a \<^verbatim>\<open>uint32_t\<close>, the type of the field \<^verbatim>\<open>key_id\<close>.\<close>

definition sizeof_uint32_t :: nat where
  "sizeof_uint32_t = 4"

text \<open>
  The status codes the partition itself produces, and \<open>PSA_ERROR_OTHER\<close> for every
  other code the Crypto Engine may report.
\<close>

datatype psa_status_t =
    PSA_SUCCESS
  | PSA_ERROR_INVALID_HANDLE
  | PSA_ERROR_NOT_SUPPORTED
  | PSA_ERROR_INSUFFICIENT_MEMORY
  | PSA_ERROR_INVALID_ARGUMENT
  | PSA_ERROR_COMMUNICATION_FAILURE
  | PSA_ERROR_BAD_STATE
  | PSA_ERROR_OTHER int

subsection \<open>Hash clone slot pool\<close>

text \<open>\<^verbatim>\<open>typedef struct psa_spm_hash_clone_s\<close>.\<close>

record psa_spm_hash_clone_t =
  partition_id :: int32_t
  source_operation :: ptr
  ref_count :: uint8_t

text \<open>\<^verbatim>\<open>#define MAX_CONCURRENT_HASH_CLONES 2\<close> (the default) and
  \<^verbatim>\<open>#define MAX_DATA_CHUNK_SIZE_IN_BYTES 400\<close> (the default).\<close>

definition MAX_CONCURRENT_HASH_CLONES :: nat where
  "MAX_CONCURRENT_HASH_CLONES = 2"

definition MAX_DATA_CHUNK_SIZE_IN_BYTES :: nat where
  "MAX_DATA_CHUNK_SIZE_IN_BYTES = 400"

definition CLIENT_PSA_KEY_ID_SIZE_IN_BYTES :: nat where
  "CLIENT_PSA_KEY_ID_SIZE_IN_BYTES = 4"

text \<open>A slot as \<^verbatim>\<open>memset(..., 0, ...)\<close> leaves it.\<close>

definition zeroed_clone :: psa_spm_hash_clone_t where
  "zeroed_clone = \<lparr>partition_id = 0, source_operation = NULL, ref_count = 0\<rparr>"

text \<open>
  The three loops over \<^verbatim>\<open>psa_spm_hash_clones\<close> all have the shape
  \<^verbatim>\<open>for (i = 0; i < MAX_CONCURRENT_HASH_CLONES; i++) if (test(slot[i])) { ...; stop }\<close>.
  \<open>scan_clones\<close> is that loop: the first index from \<open>i\<close> on whose slot passes the
  test. The array has \<^verbatim>\<open>MAX_CONCURRENT_HASH_CLONES\<close> entries; the model's list has
  as many, so the loop bound is the length of the list.
\<close>

function scan_clones ::
  "(psa_spm_hash_clone_t \<Rightarrow> bool) \<Rightarrow> psa_spm_hash_clone_t list \<Rightarrow> nat \<Rightarrow> nat option" where
  "scan_clones test clones i =
     (if i < length clones
      then (if test (clones ! i) then Some i else scan_clones test clones (Suc i))
      else None)"
  by pat_completeness auto
termination
  by (relation "measure (\<lambda>(test, clones, i). length clones - i)") auto

declare scan_clones.simps [simp del]

text \<open>
  \<^verbatim>\<open>reserve_hash_clone\<close>: status, the final value of \<^verbatim>\<open>*index\<close>, and the pool.
  When both loops run to their end \<^verbatim>\<open>*index\<close> is the capacity.
\<close>

definition reserve_hash_clone ::
  "int32_t \<Rightarrow> ptr \<Rightarrow> psa_spm_hash_clone_t list
     \<Rightarrow> psa_status_t \<times> nat \<times> psa_spm_hash_clone_t list" where
  "reserve_hash_clone pid src clones =
     (case scan_clones (\<lambda>c. partition_id c = pid \<and> source_operation c = src) clones 0 of
        Some i \<Rightarrow>
          (PSA_SUCCESS, i,
           clones[i := (clones ! i)\<lparr>ref_count := ref_count (clones ! i) + 1\<rparr>])
      | None \<Rightarrow>
          (case scan_clones (\<lambda>c. partition_id c = 0 \<and> source_operation c = NULL) clones 0 of
             Some i \<Rightarrow>
               (PSA_SUCCESS, i,
                clones[i := (clones ! i)\<lparr>partition_id := pid, source_operation := src,
                                         ref_count := ref_count (clones ! i) + 1\<rparr>])
           | None \<Rightarrow> (PSA_ERROR_BAD_STATE, length clones, clones)))"

text \<open>\<^verbatim>\<open>release_hash_clone\<close>, on the slot its argument points to.\<close>

definition release_hash_clone :: "psa_spm_hash_clone_t \<Rightarrow> psa_spm_hash_clone_t" where
  "release_hash_clone hash_clone =
     (let c = hash_clone\<lparr>ref_count := ref_count hash_clone - 1\<rparr>
      in if ref_count c = 0 then c\<lparr>partition_id := 0, source_operation := NULL\<rparr> else c)"

text \<open>\<^verbatim>\<open>destroy_hash_clone\<close>: the first slot of that source is zeroed, then \<^verbatim>\<open>break\<close>.\<close>

definition destroy_hash_clone ::
  "ptr \<Rightarrow> psa_spm_hash_clone_t list \<Rightarrow> psa_spm_hash_clone_t list" where
  "destroy_hash_clone src clones =
     (case scan_clones (\<lambda>c. source_operation c = src) clones 0 of
        Some i \<Rightarrow> clones[i := (clones ! i)\<lparr>partition_id := 0, source_operation := NULL,
                                          ref_count := 0\<rparr>]
      | None \<Rightarrow> clones)"

text \<open>
  \<^verbatim>\<open>get_hash_clone\<close>: the status, and on success the index of the slot that
  \<^verbatim>\<open>*hash_clone\<close> points to.
\<close>

definition get_hash_clone ::
  "nat \<Rightarrow> int32_t \<Rightarrow> psa_spm_hash_clone_t list \<Rightarrow> psa_status_t \<times> nat option" where
  "get_hash_clone index pid clones =
     (if index \<ge> length clones \<or>
         partition_id (clones ! index) \<noteq> pid \<or>
         source_operation (clones ! index) = NULL
      then (PSA_ERROR_BAD_STATE, None)
      else (PSA_SUCCESS, Some index))"

text \<open>
  The invariant of a slot: its reference count is 0 exactly when it holds the free-slot
  sentinel (partition 0, no source) that the second loop of \<^verbatim>\<open>reserve_hash_clone\<close>
  looks for.
\<close>

definition clone_inv :: "psa_spm_hash_clone_t \<Rightarrow> bool" where
  "clone_inv c \<longleftrightarrow>
     ((ref_count c = 0) = (partition_id c = 0 \<and> source_operation c = NULL))"

definition is_free_clone :: "psa_spm_hash_clone_t \<Rightarrow> bool" where
  "is_free_clone c \<longleftrightarrow> partition_id c = 0 \<and> source_operation c = NULL"

definition is_clone_of :: "int32_t \<Rightarrow> ptr \<Rightarrow> psa_spm_hash_clone_t \<Rightarrow> bool" where
  "is_clone_of pid src c \<longleftrightarrow> partition_id c = pid \<and> source_operation c = src"

section \<open>Messages, collaborators and the partition state\<close>

subsection \<open>Operation codes and request headers\<close>

text \<open>
  The operation codes (\<^verbatim>\<open>psa_sec_function_t\<close>) that the handlers switch on, under
  the names the source uses; \<open>PSA_FUNC_OTHER\<close> stands for every other value of the
  field, which all the switches send to \<^verbatim>\<open>default\<close>.
\<close>

datatype psa_sec_function_t =
    PSA_MAC_SIGN_SETUP | PSA_MAC_VERIFY_SETUP | PSA_MAC_UPDATE | PSA_MAC_SIGN_FINISH
  | PSA_MAC_VERIFY_FINISH | PSA_MAC_ABORT
  | PSA_HASH_SETUP | PSA_HASH_UPDATE | PSA_HASH_FINISH | PSA_HASH_VERIFY | PSA_HASH_ABORT
  | PSA_HASH_CLONE_BEGIN | PSA_HASH_CLONE_END
  | PSA_ASYMMETRIC_SIGN | PSA_ASYMMETRIC_VERIFY | PSA_ASYMMETRIC_ENCRYPT
  | PSA_ASYMMETRIC_DECRYPT
  | PSA_AEAD_ENCRYPT | PSA_AEAD_DECRYPT
  | PSA_CIPHER_ENCRYPT_SETUP | PSA_CIPHER_DECRYPT_SETUP | PSA_CIPHER_GENERATE_IV
  | PSA_CIPHER_SET_IV | PSA_CIPHER_UPDATE | PSA_CIPHER_FINISH | PSA_CIPHER_ABORT
  | PSA_GET_KEY_LIFETIME | PSA_SET_KEY_POLICY | PSA_GET_KEY_POLICY | PSA_IMPORT_KEY
  | PSA_DESTROY_KEY | PSA_GET_KEY_INFORMATION | PSA_EXPORT_KEY | PSA_EXPORT_PUBLIC_KEY
  | PSA_GENERATE_KEY | PSA_ALLOCATE_KEY | PSA_CREATE_KEY | PSA_OPEN_KEY | PSA_CLOSE_KEY
  | PSA_GET_GENERATOR_CAPACITY | PSA_GENERATOR_READ | PSA_GENERATOR_IMPORT_KEY
  | PSA_GENERATOR_ABORT | PSA_KEY_DERIVATION | PSA_KEY_AGREEMENT
  | PSA_FUNC_OTHER nat

text \<open>
  The fixed-layout headers of input parameter 0, with the fields the handlers use.
  Each record is what the C struct holds once \<^verbatim>\<open>psa_read\<close> has filled it.
\<close>

record psa_crypto_ipc_t =
  ipc_func :: psa_sec_function_t
  ipc_handle :: psa_key_handle_t
  ipc_alg :: uint32_t

record psa_crypto_ipc_asymmetric_t =
  asym_func :: psa_sec_function_t
  asym_handle :: psa_key_handle_t
  asym_alg :: uint32_t
  asym_input_length :: nat
  asym_salt_length :: nat

record psa_crypto_ipc_aead_t =
  aead_func :: psa_sec_function_t
  aead_handle :: psa_key_handle_t
  aead_alg :: uint32_t
  aead_nonce_size :: nat
  aead_additional_data_length :: nat
  aead_input_length :: nat

record psa_key_mng_ipc_t =
  key_mng_handle :: psa_key_handle_t
  key_mng_lifetime :: uint32_t
  key_mng_type :: uint32_t
  key_mng_func :: psa_sec_function_t

record psa_crypto_derivation_ipc_t =
  derivation_func :: psa_sec_function_t
  derivation_handle :: psa_key_handle_t
  derivation_alg :: uint32_t
  derivation_capacity :: nat

subsection \<open>Messages\<close>

datatype msg_type_t = PSA_IPC_CONNECT | PSA_IPC_CALL | PSA_IPC_DISCONNECT | PSA_IPC_OTHER int

text \<open>
  \<^verbatim>\<open>psa_msg_t\<close>: \<^verbatim>\<open>type\<close>, \<^verbatim>\<open>handle\<close>, \<^verbatim>\<open>client_id\<close>, \<^verbatim>\<open>rhandle\<close> and the arrays
  \<^verbatim>\<open>in_size[]\<close> and \<^verbatim>\<open>out_size[]\<close>, which the code indexes with constants only.
\<close>

record psa_msg_t =
  msg_type :: msg_type_t
  msg_handle :: nat
  client_id :: int32_t
  rhandle :: ptr
  in_size :: "nat \<Rightarrow> nat"
  out_size :: "nat \<Rightarrow> nat"

text \<open>
  What the caller put into the input vectors of a message, as the handler sees it after
  its reads: the header of parameter 0 in each of the five layouts, and the scalar a
  handler reads from a parameter (\<^verbatim>\<open>mac_size\<close>, \<^verbatim>\<open>hash_length\<close>, the clone index,
  \<^verbatim>\<open>bits\<close>, the key type, the 32-bit key identifier). The bytes of buffers are not
  modelled: no branch of the code depends on them.
\<close>

record in_vec_t =
  iv_crypto_ipc :: psa_crypto_ipc_t
  iv_asymmetric :: psa_crypto_ipc_asymmetric_t
  iv_aead :: psa_crypto_ipc_aead_t
  iv_key_mng :: psa_key_mng_ipc_t
  iv_derivation :: psa_crypto_derivation_ipc_t
  iv_scalar :: "nat \<Rightarrow> nat"

subsection \<open>The Crypto Engine\<close>

text \<open>
  One constructor for each engine function the partition calls, with the scalar
  arguments of the call in the order of the source (buffers are left out, their lengths
  are kept). The functions are grouped by the service that calls them.
\<close>

datatype mac_call =
    psa_mac_sign_setup ptr psa_key_handle_t uint32_t
  | psa_mac_verify_setup ptr psa_key_handle_t uint32_t
  | psa_mac_update ptr nat
  | psa_mac_sign_finish ptr nat
  | psa_mac_verify_finish ptr nat
  | psa_mac_abort ptr

datatype hash_call =
    psa_hash_setup ptr uint32_t
  | psa_hash_update ptr nat
  | psa_hash_finish ptr nat
  | psa_hash_verify ptr nat
  | psa_hash_abort ptr
  | psa_hash_clone ptr ptr

datatype asymmetric_call =
    psa_asymmetric_sign psa_key_handle_t uint32_t nat nat
  | psa_asymmetric_verify psa_key_handle_t uint32_t nat nat
  | psa_asymmetric_encrypt psa_key_handle_t uint32_t nat nat nat
  | psa_asymmetric_decrypt psa_key_handle_t uint32_t nat nat nat

datatype aead_call =
    psa_aead_encrypt psa_key_handle_t uint32_t nat nat nat nat
  | psa_aead_decrypt psa_key_handle_t uint32_t nat nat nat nat

datatype cipher_call =
    psa_cipher_encrypt_setup ptr psa_key_handle_t uint32_t
  | psa_cipher_decrypt_setup ptr psa_key_handle_t uint32_t
  | psa_cipher_generate_iv ptr nat
  | psa_cipher_set_iv ptr nat
  | psa_cipher_update ptr nat nat
  | psa_cipher_finish ptr nat
  | psa_cipher_abort ptr

datatype key_call =
    psa_get_key_lifetime psa_key_handle_t
  | psa_set_key_policy psa_key_handle_t
  | psa_get_key_policy psa_key_handle_t
  | psa_import_key psa_key_handle_t uint32_t nat
  | psa_destroy_key psa_key_handle_t
  | psa_get_key_information psa_key_handle_t
  | psa_export_key psa_key_handle_t nat
  | psa_export_public_key psa_key_handle_t nat
  | psa_generate_key psa_key_handle_t uint32_t nat ptr nat
  | psa_allocate_key
  | psa_create_key uint32_t int32_t nat
  | psa_open_key uint32_t int32_t nat
  | psa_close_key psa_key_handle_t

datatype generator_call =
    psa_get_generator_capacity ptr
  | psa_generator_read ptr nat
  | psa_generator_import_key psa_key_handle_t nat nat ptr
  | psa_generator_abort ptr
  | psa_key_derivation ptr psa_key_handle_t uint32_t nat nat nat
  | psa_key_agreement ptr psa_key_handle_t nat uint32_t

datatype system_call =
    psa_crypto_init
  | mbedtls_psa_crypto_free
  | mbedtls_psa_inject_entropy nat
  | psa_generate_random nat

datatype engine_call =
    Mac mac_call
  | Hash hash_call
  | Asymmetric asymmetric_call
  | Aead aead_call
  | Cipher cipher_call
  | Key key_call
  | Generator generator_call
  | System system_call

text \<open>
  What an engine call gives back: the status, and the output arguments that the
  partition looks at or passes on (an output length, a key handle, a key type, a bit
  size).
\<close>

record engine_result =
  res_status :: psa_status_t
  res_length :: nat
  res_handle :: psa_key_handle_t
  res_type :: uint32_t
  res_bits :: nat

subsection \<open>Observable events\<close>

datatype service =
    PSA_CRYPTO_INIT | PSA_MAC | PSA_HASH | PSA_SYMMETRIC | PSA_ASYMMETRIC | PSA_AEAD
  | PSA_KEY_MNG | PSA_RNG | PSA_CRYPTO_FREE | PSA_GENERATOR | PSA_ENTROPY_INJECT

text \<open>
  Every call that leaves the partition is recorded, in order: engine calls, the Secure
  Channel primitives, the allocator and the Access Control Registry; and so is every
  call of the partition's own \<^verbatim>\<open>destroy_hash_clone\<close>. The channel events
  carry the handle of the message (\<^verbatim>\<open>msg->handle\<close>) first. A \<open>Write\<close> carries the
  parameter index, the scalar written when there is one (\<open>None\<close> for a buffer) and the
  length; a \<open>Get\<close> carries the signal and the handle of the message retrieved, \<open>None\<close>
  when the retrieval failed.
\<close>

datatype event =
    Engine engine_call
  | Read nat nat nat
  | Write nat nat "nat option" nat
  | Reply nat psa_status_t
  | SetRhandle nat ptr
  | Wait
  | Get service "nat option"
  | Calloc nat
  | Free ptr
  | DestroyHashClone ptr
  | AccessInit
  | AccessDestroy
  | Register psa_key_handle_t int32_t
  | Unregister psa_key_handle_t

subsection \<open>Collaborators\<close>

text \<open>
  The code outside this file is a parameter of the model. Each collaborator answers
  from the history of events so far, so it may answer the same call differently at
  different times; a theorem that holds for every \<open>env\<close> holds for every engine,
  channel and allocator. The sizes and constants of headers that are not part of this
  file are fields of \<open>env\<close> as well. \<open>indeterminate_status\<close> is the value an
  uninitialised local \<^verbatim>\<open>psa_status_t status;\<close> holds when it is read before any
  assignment.
\<close>

record env =
  engine :: "event list \<Rightarrow> engine_call \<Rightarrow> engine_result"
  channel_read :: "event list \<Rightarrow> nat \<Rightarrow> nat \<Rightarrow> nat \<Rightarrow> nat"
  channel_get :: "event list \<Rightarrow> service \<Rightarrow> (psa_msg_t \<times> in_vec_t) option"
  channel_wait :: "event list \<Rightarrow> service \<Rightarrow> bool"
  allocator :: "event list \<Rightarrow> nat \<Rightarrow> ptr"
  indeterminate_status :: psa_status_t
  sizeof_psa_crypto_ipc_t :: nat
  sizeof_psa_crypto_ipc_asymmetric_t :: nat
  sizeof_psa_crypto_ipc_aead_t :: nat
  sizeof_psa_key_mng_ipc_t :: nat
  sizeof_psa_crypto_derivation_ipc_t :: nat
  sizeof_psa_key_policy_t :: nat
  PSA_AEAD_MAX_NONCE_SIZE :: nat
  sizeof_size_t :: nat
  sizeof_psa_key_type_t :: nat
  sizeof_psa_key_handle_t :: nat
  sizeof_psa_mac_operation_t :: nat
  sizeof_psa_hash_operation_t :: nat
  sizeof_psa_cipher_operation_t :: nat
  sizeof_psa_crypto_generator_t :: nat
  PSA_KEY_TYPE_RSA_KEYPAIR :: uint32_t
  entropy_nv_seed :: bool
  MBEDTLS_ENTROPY_MAX_SEED_SIZE :: nat

subsection \<open>The state of the partition\<close>

text \<open>
  The globals \<^verbatim>\<open>psa_spm_init_refence_counter\<close> and \<^verbatim>\<open>psa_spm_hash_clones\<close>, the
  Access Control Registry, the set of live heap blocks and the events so far. The
  counter is a C \<^verbatim>\<open>int\<close>, 32 bits wide on the target: a 32-bit word read as signed
  (\<open>sint\<close>, \<open><s\<close>), whose increment at \<open>2^31 - 1\<close> wraps to \<open>- 2^31\<close> as the
  two's-complement machine does.
\<close>

type_synonym c_int = "32 word"

record world =
  psa_spm_init_refence_counter :: c_int
  psa_spm_hash_clones :: "psa_spm_hash_clone_t list"
  access_control :: "psa_key_handle_t \<rightharpoonup> int32_t"
  heap :: "ptr set"
  trace :: "event list"

text \<open>
  A handler either returns a value in a new state, or stops in \<^verbatim>\<open>SPM_PANIC\<close>, or has
  had more bytes copied into a destination than the destination holds: from there on C
  defines no behaviour, and the run ends as \<open>Undefined\<close> in the state of the overrun.
\<close>

datatype 'a result = Done 'a world | Panic world | Undefined world

text \<open>
  What a run returned (nothing after a panic or an overrun) and the state it ended in.
\<close>

definition returned :: "'a result \<Rightarrow> 'a option" where
  "returned r = (case r of Done x w \<Rightarrow> Some x | Panic w \<Rightarrow> None | Undefined w \<Rightarrow> None)"

definition final :: "'a result \<Rightarrow> world" where
  "final r = (case r of Done x w \<Rightarrow> w | Panic w \<Rightarrow> w | Undefined w \<Rightarrow> w)"

definition and_then :: "'a result \<Rightarrow> ('a \<Rightarrow> world \<Rightarrow> 'b result) \<Rightarrow> 'b result" where
  "and_then r f =
     (case r of Done x w \<Rightarrow> f x w | Panic w \<Rightarrow> Panic w | Undefined w \<Rightarrow> Undefined w)"

definition emit :: "event \<Rightarrow> world \<Rightarrow> world" where
  "emit e w = w\<lparr>trace := trace w @ [e]\<rparr>"

definition call_engine :: "env \<Rightarrow> engine_call \<Rightarrow> world \<Rightarrow> engine_result \<times> world" where
  "call_engine env c w = (engine env (trace w) c, emit (Engine c) w)"

subsection \<open>Secure Channel primitives\<close>

text \<open>
  \<^verbatim>\<open>psa_read(handle, index, buffer, num_bytes)\<close> copies bytes of an input parameter
  into \<^verbatim>\<open>buffer\<close> and returns how many. The model has the size of the destination,
  \<open>buffer_size\<close>, in the place of the pointer: the size of the variable or of the array
  whose address the caller passes, or the size the block was allocated with. A copy of
  more bytes than that overruns the destination.
\<close>

definition psa_read :: "env \<Rightarrow> nat \<Rightarrow> nat \<Rightarrow> nat \<Rightarrow> nat \<Rightarrow> world \<Rightarrow> nat result" where
  "psa_read env handle param_index buffer_size num_bytes w =
     (let bytes_read = channel_read env (trace w) handle param_index num_bytes;
          w1 = emit (Read handle param_index num_bytes) w
      in if buffer_size < bytes_read then Undefined w1 else Done bytes_read w1)"

text \<open>
  \<^verbatim>\<open>psa_write(handle, index, buffer, num_bytes)\<close>. The model has, in the place of the
  buffer, the scalar written when the handler writes one of its own variables, and
  nothing when it writes a buffer that the engine filled; the length is the one the
  handler passes.
\<close>

definition psa_write :: "nat \<Rightarrow> nat \<Rightarrow> nat option \<Rightarrow> nat \<Rightarrow> world \<Rightarrow> world" where
  "psa_write handle param_index val len w = emit (Write handle param_index val len) w"

definition psa_reply :: "nat \<Rightarrow> psa_status_t \<Rightarrow> world \<Rightarrow> world" where
  "psa_reply handle status w = emit (Reply handle status) w"

definition psa_set_rhandle :: "nat \<Rightarrow> ptr \<Rightarrow> world \<Rightarrow> world" where
  "psa_set_rhandle handle p w = emit (SetRhandle handle p) w"

definition psa_get :: "env \<Rightarrow> service \<Rightarrow> world \<Rightarrow> (psa_msg_t \<times> in_vec_t) option \<times> world" where
  "psa_get env s w =
     (channel_get env (trace w) s,
      emit (Get s (map_option (\<lambda>m. msg_handle (fst m)) (channel_get env (trace w) s))) w)"

definition psa_wait :: "env \<Rightarrow> world \<Rightarrow> (service \<Rightarrow> bool) \<times> world" where
  "psa_wait env w = (channel_wait env (trace w), emit Wait w)"

text \<open>
  \<^verbatim>\<open>read_message_param(msg, param_index, param_ptr)\<close>: the read of the whole declared
  length of the parameter into \<^verbatim>\<open>param_ptr\<close>, whose size is \<open>param_size\<close>, and the
  panic on a length mismatch. The function is not given the size of its destination
  and reads \<^verbatim>\<open>msg->in_size[param_index]\<close> bytes whatever that size is.
\<close>

definition read_message_param ::
  "env \<Rightarrow> psa_msg_t \<Rightarrow> nat \<Rightarrow> nat \<Rightarrow> world \<Rightarrow> unit result" where
  "read_message_param env msg param_index param_size w =
     and_then
       (psa_read env (msg_handle msg) param_index param_size (in_size msg param_index) w)
       (\<lambda>bytes_read w1.
          if bytes_read \<noteq> in_size msg param_index then Panic w1 else Done () w1)"

subsection \<open>Allocator\<close>

text \<open>
  \<^verbatim>\<open>mbedtls_calloc\<close> returns \<open>NULL\<close> or a block that is not live; a collaborator that
  proposes a live block is read as a failed allocation. \<^verbatim>\<open>mbedtls_free\<close> of \<open>NULL\<close>
  frees nothing.
\<close>

definition mbedtls_calloc :: "env \<Rightarrow> nat \<Rightarrow> world \<Rightarrow> ptr \<times> world" where
  "mbedtls_calloc env n w =
     (let p = allocator env (trace w) n;
          q = (if p \<in> heap w then NULL else p)
      in (q, emit (Calloc n) (w\<lparr>heap := (if q = NULL then heap w else insert q (heap w))\<rparr>)))"

definition mbedtls_free :: "ptr \<Rightarrow> world \<Rightarrow> world" where
  "mbedtls_free p w = emit (Free p) (w\<lparr>heap := heap w - {p}\<rparr>)"

subsection \<open>Access Control Registry\<close>

text \<open>
  Modelled from the spec: the functions of \<^verbatim>\<open>psa_crypto_access_control.h\<close> are only
  declared in this repository's sources. The spec has \<open>register(handle, owner_id)\<close>
  record the ownership unconditionally, \<open>unregister(handle)\<close> remove the record, and
  \<open>is_permitted(handle, caller_id)\<close> hold iff a record for the handle exists with that
  owner. Initialisation and destruction leave an empty registry.
\<close>

definition psa_crypto_access_control_init :: "world \<Rightarrow> world" where
  "psa_crypto_access_control_init w = emit AccessInit (w\<lparr>access_control := Map.empty\<rparr>)"

definition psa_crypto_access_control_destroy :: "world \<Rightarrow> world" where
  "psa_crypto_access_control_destroy w =
     emit AccessDestroy (w\<lparr>access_control := Map.empty\<rparr>)"

definition psa_crypto_access_control_register_handle ::
  "psa_key_handle_t \<Rightarrow> int32_t \<Rightarrow> world \<Rightarrow> world" where
  "psa_crypto_access_control_register_handle key_handle pid w =
     emit (Register key_handle pid)
       (w\<lparr>access_control := (access_control w)(key_handle \<mapsto> pid)\<rparr>)"

definition psa_crypto_access_control_unregister_handle ::
  "psa_key_handle_t \<Rightarrow> world \<Rightarrow> world" where
  "psa_crypto_access_control_unregister_handle key_handle w =
     emit (Unregister key_handle)
       (w\<lparr>access_control := (access_control w)(key_handle := None)\<rparr>)"

definition psa_crypto_access_control_is_handle_permitted ::
  "psa_key_handle_t \<Rightarrow> int32_t \<Rightarrow> world \<Rightarrow> bool" where
  "psa_crypto_access_control_is_handle_permitted key_handle pid w \<longleftrightarrow>
     access_control w key_handle = Some pid"

section \<open>The handlers\<close>

text \<open>
  A handler is the model of a C function \<^verbatim>\<open>psa_status_t f(psa_msg_t *msg)\<close>: it takes
  the collaborators, the message with the caller's input vectors and the state, and
  returns the status with the new state, or panics, or overruns a destination.
\<close>

type_synonym handler = "env \<Rightarrow> psa_msg_t \<Rightarrow> in_vec_t \<Rightarrow> world \<Rightarrow> psa_status_t result"

subsection \<open>Crypto lifecycle\<close>

text \<open>\<^verbatim>\<open>memset(psa_spm_hash_clones, 0, sizeof(psa_spm_hash_clones))\<close>.\<close>

definition memset_hash_clones :: "world \<Rightarrow> world" where
  "memset_hash_clones w =
     w\<lparr>psa_spm_hash_clones := map (\<lambda>c. zeroed_clone) (psa_spm_hash_clones w)\<rparr>"

definition crypto_init_on_call :: handler where
  "crypto_init_on_call env msg iv w =
     (let (r, w1) = call_engine env (System psa_crypto_init) w;
          status = res_status r
      in if status = PSA_SUCCESS
         then (let w2 = w1\<lparr>psa_spm_init_refence_counter :=
                              psa_spm_init_refence_counter w1 + 1\<rparr>
               in if psa_spm_init_refence_counter w2 = 1
                  then Done status (psa_crypto_access_control_init (memset_hash_clones w2))
                  else Done status w2)
         else Done status w1)"

definition crypto_free_on_call :: handler where
  "crypto_free_on_call env msg iv w =
     (let w1 = (if 0 <s psa_spm_init_refence_counter w
                then w\<lparr>psa_spm_init_refence_counter := psa_spm_init_refence_counter w - 1\<rparr>
                else w)
      in if psa_spm_init_refence_counter w1 = 0
         then Done PSA_SUCCESS
                (snd (call_engine env (System mbedtls_psa_crypto_free)
                        (psa_crypto_access_control_destroy (memset_hash_clones w1))))
         else Done PSA_SUCCESS w1)"

subsection \<open>Chunked transfer\<close>

text \<open>
  The \<^verbatim>\<open>while (data_remaining > 0)\<close> loop of \<^verbatim>\<open>PSA_MAC_UPDATE\<close> and of
  \<^verbatim>\<open>PSA_HASH_UPDATE\<close>; the two copies differ in the engine function only, which is
  the parameter \<open>sink\<close>; \<open>handle\<close> is \<^verbatim>\<open>msg->handle\<close> and \<open>input_buffer_size\<close> the
  size \<^verbatim>\<open>input_buffer\<close> was allocated with. \<open>status\<close> is the value of the local on
  entry; the loop returns it unchanged when it does not run.
\<close>

function read_update_loop ::
  "env \<Rightarrow> nat \<Rightarrow> nat \<Rightarrow> (nat \<Rightarrow> engine_call) \<Rightarrow> psa_status_t \<Rightarrow> nat \<Rightarrow> world
     \<Rightarrow> psa_status_t result" where
  "read_update_loop env handle input_buffer_size sink status data_remaining w =
     (if data_remaining > 0
      then (let size_to_read = min data_remaining MAX_DATA_CHUNK_SIZE_IN_BYTES
            in case psa_read env handle 1 input_buffer_size size_to_read w of
                 Done bytes_read w1 \<Rightarrow>
                   if bytes_read \<noteq> size_to_read then Panic w1
                   else (let (r, w2) = call_engine env (sink bytes_read) w1
                         in if res_status r \<noteq> PSA_SUCCESS then Done (res_status r) w2
                            else read_update_loop env handle input_buffer_size sink
                                   (res_status r) (data_remaining - bytes_read) w2)
               | Panic w1 \<Rightarrow> Panic w1
               | Undefined w1 \<Rightarrow> Undefined w1)
      else Done status w)"
  by pat_completeness auto
termination
  by (relation "measure (\<lambda>(env, handle, input_buffer_size, sink, status, data_remaining, w).
                           data_remaining)")
     (auto simp: MAX_DATA_CHUNK_SIZE_IN_BYTES_def)

declare read_update_loop.simps [simp del]

subsection \<open>MAC\<close>

definition mac_on_connect :: handler where
  "mac_on_connect env msg iv w =
     (let (operation, w1) = mbedtls_calloc env (sizeof_psa_mac_operation_t env) w
      in if operation = NULL then Done PSA_ERROR_INSUFFICIENT_MEMORY w1
         else Done PSA_SUCCESS (psa_set_rhandle (msg_handle msg) operation w1))"

definition mac_on_call :: handler where
  "mac_on_call env msg iv w =
     and_then (read_message_param env msg 0 (sizeof_psa_crypto_ipc_t env) w) (\<lambda>u w1.
       let crypto_ipc = iv_crypto_ipc iv;
           status = indeterminate_status env
       in case ipc_func crypto_ipc of
            PSA_MAC_SIGN_SETUP \<Rightarrow>
              if \<not> psa_crypto_access_control_is_handle_permitted
                     (ipc_handle crypto_ipc) (client_id msg) w1
              then Done PSA_ERROR_INVALID_HANDLE w1
              else (let (r, w2) = call_engine env
                          (Mac (psa_mac_sign_setup (rhandle msg) (ipc_handle crypto_ipc)
                                  (ipc_alg crypto_ipc))) w1
                    in Done (res_status r) w2)
          | PSA_MAC_VERIFY_SETUP \<Rightarrow>
              if \<not> psa_crypto_access_control_is_handle_permitted
                     (ipc_handle crypto_ipc) (client_id msg) w1
              then Done PSA_ERROR_INVALID_HANDLE w1
              else (let (r, w2) = call_engine env
                          (Mac (psa_mac_verify_setup (rhandle msg) (ipc_handle crypto_ipc)
                                  (ipc_alg crypto_ipc))) w1
                    in Done (res_status r) w2)
          | PSA_MAC_UPDATE \<Rightarrow>
              (let data_remaining = in_size msg 1;
                   (input_buffer, w2) = mbedtls_calloc env
                      (min data_remaining MAX_DATA_CHUNK_SIZE_IN_BYTES) w1
               in if input_buffer = NULL then Done PSA_ERROR_INSUFFICIENT_MEMORY w2
                  else and_then
                         (read_update_loop env (msg_handle msg)
                            (min data_remaining MAX_DATA_CHUNK_SIZE_IN_BYTES)
                            (\<lambda>n. Mac (psa_mac_update (rhandle msg) n))
                            status data_remaining w2)
                         (\<lambda>status w3. Done status (mbedtls_free input_buffer w3)))
          | PSA_MAC_SIGN_FINISH \<Rightarrow>
              and_then (read_message_param env msg 1 (sizeof_size_t env) w1) (\<lambda>u w2.
                let mac_size = iv_scalar iv 1;
                    (mac, w3) = mbedtls_calloc env mac_size w2
                in if mac = NULL then Done PSA_ERROR_INSUFFICIENT_MEMORY w3
                   else (let (r, w4) = call_engine env
                               (Mac (psa_mac_sign_finish (rhandle msg) mac_size)) w3;
                             w5 = (if res_status r = PSA_SUCCESS
                                   then psa_write (msg_handle msg) 1 (Some (res_length r)) (sizeof_size_t env)
                                          (psa_write (msg_handle msg) 0 None (res_length r) w4)
                                   else w4)
                         in Done (res_status r) (mbedtls_free mac w5)))
          | PSA_MAC_VERIFY_FINISH \<Rightarrow>
              and_then (read_message_param env msg 1 (sizeof_size_t env) w1) (\<lambda>u w2.
                let mac_length = iv_scalar iv 1;
                    (mac, w3) = mbedtls_calloc env mac_length w2
                in if mac = NULL then Done PSA_ERROR_INSUFFICIENT_MEMORY w3
                   else and_then (read_message_param env msg 2 mac_length w3) (\<lambda>u w4.
                          let (r, w5) = call_engine env
                                (Mac (psa_mac_verify_finish (rhandle msg) mac_length)) w4
                          in Done (res_status r) (mbedtls_free mac w5)))
          | PSA_MAC_ABORT \<Rightarrow>
              (let (r, w2) = call_engine env (Mac (psa_mac_abort (rhandle msg))) w1
               in Done (res_status r) w2)
          | _ \<Rightarrow> Done PSA_ERROR_NOT_SUPPORTED w1)"

definition mac_on_disconnect :: handler where
  "mac_on_disconnect env msg iv w =
     (let (r, w1) = call_engine env (Mac (psa_mac_abort (rhandle msg))) w
      in Done PSA_SUCCESS (if rhandle msg \<noteq> NULL then mbedtls_free (rhandle msg) w1 else w1))"

subsection \<open>Hash\<close>

definition hash_on_connect :: handler where
  "hash_on_connect env msg iv w =
     (let (operation, w1) = mbedtls_calloc env (sizeof_psa_hash_operation_t env) w
      in if operation = NULL then Done PSA_ERROR_INSUFFICIENT_MEMORY w1
         else Done PSA_SUCCESS (psa_set_rhandle (msg_handle msg) operation w1))"

text \<open>
  \<^verbatim>\<open>destroy_hash_clone\<close> on the global pool. The call is recorded among the events, so
  that its place among the releases of memory can be read off the trace.
\<close>

definition destroy_hash_clone_global :: "ptr \<Rightarrow> world \<Rightarrow> world" where
  "destroy_hash_clone_global src w =
     emit (DestroyHashClone src)
       (w\<lparr>psa_spm_hash_clones := destroy_hash_clone src (psa_spm_hash_clones w)\<rparr>)"

definition hash_on_call :: handler where
  "hash_on_call env msg iv w =
     and_then (read_message_param env msg 0 (sizeof_psa_crypto_ipc_t env) w) (\<lambda>u w1.
       let crypto_ipc = iv_crypto_ipc iv;
           status = indeterminate_status env
       in case ipc_func crypto_ipc of
            PSA_HASH_SETUP \<Rightarrow>
              (let (r, w2) = call_engine env
                     (Hash (psa_hash_setup (rhandle msg) (ipc_alg crypto_ipc))) w1
               in Done (res_status r) w2)
          | PSA_HASH_UPDATE \<Rightarrow>
              (let data_remaining = in_size msg 1;
                   (input_buffer, w2) = mbedtls_calloc env
                      (min data_remaining MAX_DATA_CHUNK_SIZE_IN_BYTES) w1
               in if input_buffer = NULL then Done PSA_ERROR_INSUFFICIENT_MEMORY w2
                  else and_then
                         (read_update_loop env (msg_handle msg)
                            (min data_remaining MAX_DATA_CHUNK_SIZE_IN_BYTES)
                            (\<lambda>n. Hash (psa_hash_update (rhandle msg) n))
                            status data_remaining w2)
                         (\<lambda>status w3. Done status (mbedtls_free input_buffer w3)))
          | PSA_HASH_FINISH \<Rightarrow>
              and_then (read_message_param env msg 1 (sizeof_size_t env) w1) (\<lambda>u w2.
                let hash_size = iv_scalar iv 1;
                    (hash, w3) = mbedtls_calloc env hash_size w2
                in if hash = NULL then Done PSA_ERROR_INSUFFICIENT_MEMORY w3
                   else (let (r, w4) = call_engine env
                               (Hash (psa_hash_finish (rhandle msg) hash_size)) w3;
                             w5 = (if res_status r = PSA_SUCCESS
                                   then psa_write (msg_handle msg) 1 (Some (res_length r)) (sizeof_size_t env)
                                          (psa_write (msg_handle msg) 0 None (res_length r) w4)
                                   else w4)
                         in Done (res_status r)
                              (destroy_hash_clone_global (rhandle msg) (mbedtls_free hash w5))))
          | PSA_HASH_VERIFY \<Rightarrow>
              and_then (read_message_param env msg 1 (sizeof_size_t env) w1) (\<lambda>u w2.
                let hash_length = iv_scalar iv 1;
                    (hash, w3) = mbedtls_calloc env hash_length w2
                in if hash = NULL then Done PSA_ERROR_INSUFFICIENT_MEMORY w3
                   else and_then (read_message_param env msg 2 hash_length w3) (\<lambda>u w4.
                          let (r, w5) = call_engine env
                                (Hash (psa_hash_verify (rhandle msg) hash_length)) w4
                          in Done (res_status r)
                               (destroy_hash_clone_global (rhandle msg)
                                  (mbedtls_free hash w5))))
          | PSA_HASH_ABORT \<Rightarrow>
              (let (r, w2) = call_engine env (Hash (psa_hash_abort (rhandle msg))) w1
               in Done (res_status r) (destroy_hash_clone_global (rhandle msg) w2))
          | PSA_HASH_CLONE_BEGIN \<Rightarrow>
              (let (status, index, clones) =
                     reserve_hash_clone (client_id msg) (rhandle msg) (psa_spm_hash_clones w1);
                   w2 = w1\<lparr>psa_spm_hash_clones := clones\<rparr>
               in if status = PSA_SUCCESS
                  then Done status (psa_write (msg_handle msg) 0 (Some index) (sizeof_size_t env) w2)
                  else Done status w2)
          | PSA_HASH_CLONE_END \<Rightarrow>
              and_then (read_message_param env msg 1 (sizeof_size_t env) w1) (\<lambda>u w2.
                let index = iv_scalar iv 1;
                    (status, hash_clone) =
                      get_hash_clone index (client_id msg) (psa_spm_hash_clones w2)
                in case hash_clone of
                     None \<Rightarrow> Done status w2
                   | Some i \<Rightarrow>
                       (let clones = psa_spm_hash_clones w2;
                            (r, w3) = call_engine env
                               (Hash (psa_hash_clone (source_operation (clones ! i))
                                        (rhandle msg))) w2
                        in Done (res_status r)
                             (w3\<lparr>psa_spm_hash_clones :=
                                   clones[i := release_hash_clone (clones ! i)]\<rparr>)))
          | _ \<Rightarrow> Done PSA_ERROR_NOT_SUPPORTED w1)"

definition hash_on_disconnect :: handler where
  "hash_on_disconnect env msg iv w =
     (let (r, w1) = call_engine env (Hash (psa_hash_abort (rhandle msg))) w
      in Done PSA_SUCCESS
           (if rhandle msg \<noteq> NULL
            then mbedtls_free (rhandle msg) (destroy_hash_clone_global (rhandle msg) w1)
            else w1))"

subsection \<open>Asymmetric\<close>

definition asymmetric_on_call :: handler where
  "asymmetric_on_call env msg iv w =
     and_then (read_message_param env msg 0 (sizeof_psa_crypto_ipc_asymmetric_t env) w) (\<lambda>u w1.
       let crypto_ipc = iv_asymmetric iv
       in if \<not> psa_crypto_access_control_is_handle_permitted
                 (asym_handle crypto_ipc) (client_id msg) w1
          then Done PSA_ERROR_INVALID_HANDLE w1
          else case asym_func crypto_ipc of
            PSA_ASYMMETRIC_SIGN \<Rightarrow>
              (let signature_size = out_size msg 0;
                   hash_size = in_size msg 1;
                   (signature, w2) = mbedtls_calloc env signature_size w1
               in if signature = NULL then Done PSA_ERROR_INSUFFICIENT_MEMORY w2
                  else (let (hash, w3) = mbedtls_calloc env hash_size w2
                        in if hash = NULL
                           then Done PSA_ERROR_INSUFFICIENT_MEMORY (mbedtls_free signature w3)
                           else and_then (read_message_param env msg 1 hash_size w3) (\<lambda>u w4.
                                  let (r, w5) = call_engine env
                                        (Asymmetric (psa_asymmetric_sign (asym_handle crypto_ipc)
                                           (asym_alg crypto_ipc) hash_size signature_size)) w4;
                                      w6 = (if res_status r = PSA_SUCCESS
                                            then psa_write (msg_handle msg) 0 None (res_length r) w5 else w5);
                                      w7 = psa_write (msg_handle msg) 1 (Some (res_length r)) (sizeof_size_t env) w6
                                  in Done (res_status r)
                                       (mbedtls_free signature (mbedtls_free hash w7)))))
          | PSA_ASYMMETRIC_VERIFY \<Rightarrow>
              (let signature_size = in_size msg 1;
                   hash_size = in_size msg 2;
                   (signature, w2) = mbedtls_calloc env signature_size w1
               in if signature = NULL then Done PSA_ERROR_INSUFFICIENT_MEMORY w2
                  else (let (hash, w3) = mbedtls_calloc env hash_size w2
                        in if hash = NULL
                           then Done PSA_ERROR_INSUFFICIENT_MEMORY (mbedtls_free signature w3)
                           else and_then (read_message_param env msg 1 signature_size w3) (\<lambda>u w4.
                                and_then (read_message_param env msg 2 hash_size w4) (\<lambda>u w5.
                                  let (r, w6) = call_engine env
                                        (Asymmetric (psa_asymmetric_verify
                                           (asym_handle crypto_ipc) (asym_alg crypto_ipc)
                                           hash_size signature_size)) w5
                                  in Done (res_status r)
                                       (mbedtls_free hash (mbedtls_free signature w6))))))
          | PSA_ASYMMETRIC_ENCRYPT \<Rightarrow>
              (let output_size = out_size msg 0;
                   (buffer, w2) = mbedtls_calloc env (in_size msg 1) w1
               in if buffer = NULL then Done PSA_ERROR_INSUFFICIENT_MEMORY w2
                  else (let (output, w3) = mbedtls_calloc env output_size w2
                        in if output = NULL
                           then Done PSA_ERROR_INSUFFICIENT_MEMORY (mbedtls_free buffer w3)
                           else and_then (read_message_param env msg 1 (in_size msg 1) w3) (\<lambda>u w4.
                                  let (r, w5) = call_engine env
                                        (Asymmetric (psa_asymmetric_encrypt
                                           (asym_handle crypto_ipc) (asym_alg crypto_ipc)
                                           (asym_input_length crypto_ipc)
                                           (asym_salt_length crypto_ipc) output_size)) w4;
                                      w6 = (if res_status r = PSA_SUCCESS
                                            then psa_write (msg_handle msg) 0 None (res_length r) w5 else w5);
                                      w7 = psa_write (msg_handle msg) 1 (Some (res_length r)) (sizeof_size_t env) w6
                                  in Done (res_status r)
                                       (mbedtls_free buffer (mbedtls_free output w7)))))
          | PSA_ASYMMETRIC_DECRYPT \<Rightarrow>
              (let output_size = out_size msg 0;
                   (buffer, w2) = mbedtls_calloc env (in_size msg 1) w1
               in if buffer = NULL then Done PSA_ERROR_INSUFFICIENT_MEMORY w2
                  else (let (output, w3) = mbedtls_calloc env output_size w2
                        in if output = NULL
                           then Done PSA_ERROR_INSUFFICIENT_MEMORY (mbedtls_free buffer w3)
                           else and_then (read_message_param env msg 1 (in_size msg 1) w3) (\<lambda>u w4.
                                  let (r, w5) = call_engine env
                                        (Asymmetric (psa_asymmetric_decrypt
                                           (asym_handle crypto_ipc) (asym_alg crypto_ipc)
                                           (asym_input_length crypto_ipc)
                                           (asym_salt_length crypto_ipc) output_size)) w4;
                                      w6 = (if res_status r = PSA_SUCCESS
                                            then psa_write (msg_handle msg) 0 None (res_length r) w5 else w5);
                                      w7 = psa_write (msg_handle msg) 1 (Some (res_length r)) (sizeof_size_t env) w6
                                  in Done (res_status r)
                                       (mbedtls_free buffer (mbedtls_free output w7)))))
          | _ \<Rightarrow> Done PSA_ERROR_NOT_SUPPORTED w1)"

subsection \<open>AEAD\<close>

definition aead_on_call :: handler where
  "aead_on_call env msg iv w =
     and_then (read_message_param env msg 0 (sizeof_psa_crypto_ipc_aead_t env) w) (\<lambda>u w1.
       let crypto_ipc = iv_aead iv
       in if \<not> psa_crypto_access_control_is_handle_permitted
                 (aead_handle crypto_ipc) (client_id msg) w1
          then Done PSA_ERROR_INVALID_HANDLE w1
          else case aead_func crypto_ipc of
            PSA_AEAD_ENCRYPT \<Rightarrow>
              (let output_size = out_size msg 0;
                   (buffer, w2) = mbedtls_calloc env (in_size msg 1) w1
               in if buffer = NULL then Done PSA_ERROR_INSUFFICIENT_MEMORY w2
                  else (let (output, w3) = mbedtls_calloc env output_size w2
                        in if output = NULL
                           then Done PSA_ERROR_INSUFFICIENT_MEMORY (mbedtls_free buffer w3)
                           else and_then (read_message_param env msg 1 (in_size msg 1) w3) (\<lambda>u w4.
                                  let (r, w5) = call_engine env
                                        (Aead (psa_aead_encrypt (aead_handle crypto_ipc)
                                           (aead_alg crypto_ipc) (aead_nonce_size crypto_ipc)
                                           (aead_additional_data_length crypto_ipc)
                                           (aead_input_length crypto_ipc) output_size)) w4;
                                      w6 = (if res_status r = PSA_SUCCESS
                                            then psa_write (msg_handle msg) 1 (Some (res_length r))
                                                   (sizeof_size_t env)
                                                   (psa_write (msg_handle msg) 0 None (res_length r) w5)
                                            else w5)
                                  in Done (res_status r)
                                       (mbedtls_free output (mbedtls_free buffer w6)))))
          | PSA_AEAD_DECRYPT \<Rightarrow>
              (let output_size = out_size msg 0;
                   (buffer, w2) = mbedtls_calloc env (in_size msg 1) w1
               in if buffer = NULL then Done PSA_ERROR_INSUFFICIENT_MEMORY w2
                  else (let (output, w3) = mbedtls_calloc env output_size w2
                        in if output = NULL
                           then Done PSA_ERROR_INSUFFICIENT_MEMORY (mbedtls_free buffer w3)
                           else and_then (read_message_param env msg 1 (in_size msg 1) w3) (\<lambda>u w4.
                                  let (r, w5) = call_engine env
                                        (Aead (psa_aead_decrypt (aead_handle crypto_ipc)
                                           (aead_alg crypto_ipc) (aead_nonce_size crypto_ipc)
                                           (aead_additional_data_length crypto_ipc)
                                           (aead_input_length crypto_ipc) output_size)) w4;
                                      w6 = (if res_status r = PSA_SUCCESS
                                            then psa_write (msg_handle msg) 1 (Some (res_length r))
                                                   (sizeof_size_t env)
                                                   (psa_write (msg_handle msg) 0 None (res_length r) w5)
                                            else w5)
                                  in Done (res_status r)
                                       (mbedtls_free output (mbedtls_free buffer w6)))))
          | _ \<Rightarrow> Done PSA_ERROR_NOT_SUPPORTED w1)"

subsection \<open>Symmetric cipher\<close>

definition symmetric_on_connect :: handler where
  "symmetric_on_connect env msg iv w =
     (let (operation, w1) = mbedtls_calloc env (sizeof_psa_cipher_operation_t env) w
      in if operation = NULL then Done PSA_ERROR_INSUFFICIENT_MEMORY w1
         else Done PSA_SUCCESS (psa_set_rhandle (msg_handle msg) operation w1))"

definition symmetric_on_call :: handler where
  "symmetric_on_call env msg iv w =
     and_then (read_message_param env msg 0 (sizeof_psa_crypto_ipc_t env) w) (\<lambda>u w1.
       let crypto_ipc = iv_crypto_ipc iv
       in case ipc_func crypto_ipc of
            PSA_CIPHER_ENCRYPT_SETUP \<Rightarrow>
              if \<not> psa_crypto_access_control_is_handle_permitted
                     (ipc_handle crypto_ipc) (client_id msg) w1
              then Done PSA_ERROR_INVALID_HANDLE w1
              else (let (r, w2) = call_engine env
                          (Cipher (psa_cipher_encrypt_setup (rhandle msg)
                                     (ipc_handle crypto_ipc) (ipc_alg crypto_ipc))) w1
                    in Done (res_status r) w2)
          | PSA_CIPHER_DECRYPT_SETUP \<Rightarrow>
              if \<not> psa_crypto_access_control_is_handle_permitted
                     (ipc_handle crypto_ipc) (client_id msg) w1
              then Done PSA_ERROR_INVALID_HANDLE w1
              else (let (r, w2) = call_engine env
                          (Cipher (psa_cipher_decrypt_setup (rhandle msg)
                                     (ipc_handle crypto_ipc) (ipc_alg crypto_ipc))) w1
                    in Done (res_status r) w2)
          | PSA_CIPHER_GENERATE_IV \<Rightarrow>
              (let (r, w2) = call_engine env
                     (Cipher (psa_cipher_generate_iv (rhandle msg) (out_size msg 0))) w1;
                   w3 = (if res_status r = PSA_SUCCESS
                         then psa_write (msg_handle msg) 1 (Some (res_length r)) (sizeof_size_t env)
                                (psa_write (msg_handle msg) 0 None (res_length r) w2)
                         else w2)
               in Done (res_status r) w3)
          | PSA_CIPHER_SET_IV \<Rightarrow>
              and_then (read_message_param env msg 1 (PSA_AEAD_MAX_NONCE_SIZE env) w1) (\<lambda>u w2.
                let (r, w3) = call_engine env
                      (Cipher (psa_cipher_set_iv (rhandle msg) (in_size msg 1))) w2
                in Done (res_status r) w3)
          | PSA_CIPHER_UPDATE \<Rightarrow>
              (let input_size = in_size msg 1;
                   output_size = out_size msg 0;
                   (input, w2) = mbedtls_calloc env input_size w1
               in if input = NULL then Done PSA_ERROR_INSUFFICIENT_MEMORY w2
                  else (let (output, w3) = mbedtls_calloc env output_size w2
                        in if output = NULL
                           then Done PSA_ERROR_INSUFFICIENT_MEMORY (mbedtls_free input w3)
                           else and_then (read_message_param env msg 1 input_size w3) (\<lambda>u w4.
                                  let (r, w5) = call_engine env
                                        (Cipher (psa_cipher_update (rhandle msg) input_size
                                                   output_size)) w4;
                                      w6 = (if res_status r = PSA_SUCCESS
                                            then psa_write (msg_handle msg) 1 (Some (res_length r))
                                                   (sizeof_size_t env)
                                                   (psa_write (msg_handle msg) 0 None (res_length r) w5)
                                            else w5)
                                  in Done (res_status r)
                                       (mbedtls_free output (mbedtls_free input w6)))))
          | PSA_CIPHER_FINISH \<Rightarrow>
              (let output_size = out_size msg 0;
                   (output, w2) = mbedtls_calloc env output_size w1
               in if output = NULL then Done PSA_ERROR_INSUFFICIENT_MEMORY w2
                  else (let (r, w3) = call_engine env
                              (Cipher (psa_cipher_finish (rhandle msg) output_size)) w2;
                            w4 = (if res_status r = PSA_SUCCESS
                                  then psa_write (msg_handle msg) 1 (Some (res_length r)) (sizeof_size_t env)
                                         (psa_write (msg_handle msg) 0 None (res_length r) w3)
                                  else w3)
                        in Done (res_status r) (mbedtls_free output w4)))
          | PSA_CIPHER_ABORT \<Rightarrow>
              (let (r, w2) = call_engine env (Cipher (psa_cipher_abort (rhandle msg))) w1
               in Done (res_status r) w2)
          | _ \<Rightarrow> Done PSA_ERROR_NOT_SUPPORTED w1)"

definition symmetric_on_disconnect :: handler where
  "symmetric_on_disconnect env msg iv w =
     (let (r, w1) = call_engine env (Cipher (psa_cipher_abort (rhandle msg))) w
      in Done PSA_SUCCESS (if rhandle msg \<noteq> NULL then mbedtls_free (rhandle msg) w1 else w1))"

subsection \<open>Key management\<close>

text \<open>
  The body of \<^verbatim>\<open>case PSA_IPC_CALL\<close> of \<^verbatim>\<open>psa_key_management_operation\<close>: the check of
  the header length, the read of the header and the switch over the operation code.
  It returns the value of \<^verbatim>\<open>status\<close> at the \<^verbatim>\<open>break\<close>.
\<close>

definition key_management_call :: handler where
  "key_management_call env msg iv w =
     (if in_size msg 0 \<noteq> sizeof_psa_key_mng_ipc_t env
      then Done PSA_ERROR_COMMUNICATION_FAILURE w
      else and_then (psa_read env (msg_handle msg) 0 (sizeof_psa_key_mng_ipc_t env) (in_size msg 0) w)
             (\<lambda>bytes_read w1.
               if bytes_read \<noteq> in_size msg 0 then Panic w1
               else (let psa_key_mng = iv_key_mng iv;
                         pid = client_id msg
                     in case key_mng_func psa_key_mng of
            PSA_GET_KEY_LIFETIME \<Rightarrow>
              (let lifetime_length = out_size msg 0
               in if \<not> psa_crypto_access_control_is_handle_permitted
                         (key_mng_handle psa_key_mng) pid w1
                  then Done PSA_ERROR_INVALID_HANDLE w1
                  else (let (r, w2) = call_engine env
                              (Key (psa_get_key_lifetime (key_mng_handle psa_key_mng))) w1
                        in Done (res_status r)
                             (if res_status r = PSA_SUCCESS
                              then psa_write (msg_handle msg) 0 None lifetime_length w2 else w2)))
          | PSA_SET_KEY_POLICY \<Rightarrow>
              (let policy_length = in_size msg 1
               in if \<not> psa_crypto_access_control_is_handle_permitted
                         (key_mng_handle psa_key_mng) pid w1
                  then Done PSA_ERROR_INVALID_HANDLE w1
                  else and_then (psa_read env (msg_handle msg) 1 (sizeof_psa_key_policy_t env) policy_length w1)
                         (\<lambda>bytes_read w2.
                           if bytes_read \<noteq> policy_length then Panic w2
                           else (let (r, w3) = call_engine env
                                       (Key (psa_set_key_policy (key_mng_handle psa_key_mng))) w2
                                 in Done (res_status r) w3)))
          | PSA_GET_KEY_POLICY \<Rightarrow>
              (let policy_size = out_size msg 0
               in if \<not> psa_crypto_access_control_is_handle_permitted
                         (key_mng_handle psa_key_mng) pid w1
                  then Done PSA_ERROR_INVALID_HANDLE w1
                  else (let (r, w2) = call_engine env
                              (Key (psa_get_key_policy (key_mng_handle psa_key_mng))) w1
                        in Done (res_status r)
                             (if res_status r = PSA_SUCCESS
                              then psa_write (msg_handle msg) 0 None policy_size w2 else w2)))
          | PSA_IMPORT_KEY \<Rightarrow>
              (let key_length = in_size msg 1
               in if \<not> psa_crypto_access_control_is_handle_permitted
                         (key_mng_handle psa_key_mng) pid w1
                  then Done PSA_ERROR_INVALID_HANDLE w1
                  else (let (key, w2) = mbedtls_calloc env key_length w1
                        in if key = NULL then Done PSA_ERROR_INSUFFICIENT_MEMORY w2
                           else and_then (psa_read env (msg_handle msg) 1 key_length key_length w2)
                                  (\<lambda>bytes_read w3.
                                    if bytes_read \<noteq> key_length then Panic w3
                                    else (let (r, w4) = call_engine env
                                                (Key (psa_import_key (key_mng_handle psa_key_mng)
                                                        (key_mng_type psa_key_mng) key_length)) w3
                                          in Done (res_status r) (mbedtls_free key w4)))))
          | PSA_DESTROY_KEY \<Rightarrow>
              if \<not> psa_crypto_access_control_is_handle_permitted
                     (key_mng_handle psa_key_mng) pid w1
              then Done PSA_ERROR_INVALID_HANDLE w1
              else (let (r, w2) = call_engine env
                          (Key (psa_destroy_key (key_mng_handle psa_key_mng))) w1
                    in Done (res_status r)
                         (if res_status r = PSA_SUCCESS
                          then psa_crypto_access_control_unregister_handle
                                 (key_mng_handle psa_key_mng) w2
                          else w2))
          | PSA_GET_KEY_INFORMATION \<Rightarrow>
              (let (status, type, bits, w2) =
                     (if psa_crypto_access_control_is_handle_permitted
                           (key_mng_handle psa_key_mng) pid w1
                      then (let (r, w2) = call_engine env
                                  (Key (psa_get_key_information (key_mng_handle psa_key_mng))) w1
                            in (res_status r, unat (res_type r), res_bits r, w2))
                      else (PSA_ERROR_INVALID_HANDLE, 0, 0, w1));
                   w3 = (if out_size msg 0 \<ge> sizeof_psa_key_type_t env
                         then psa_write (msg_handle msg) 0 (Some type) (sizeof_psa_key_type_t env) w2 else w2);
                   w4 = (if out_size msg 1 \<ge> sizeof_size_t env
                         then psa_write (msg_handle msg) 1 (Some bits) (sizeof_size_t env) w3 else w3)
               in Done status w4)
          | PSA_EXPORT_KEY \<Rightarrow>
              (let key_length = out_size msg 0
               in if \<not> psa_crypto_access_control_is_handle_permitted
                         (key_mng_handle psa_key_mng) pid w1
                  then Done PSA_ERROR_INVALID_HANDLE w1
                  else (let (key, w2) = mbedtls_calloc env key_length w1
                        in if key = NULL then Done PSA_ERROR_INSUFFICIENT_MEMORY w2
                           else (let (r, w3) = call_engine env
                                       (Key (psa_export_key (key_mng_handle psa_key_mng)
                                               key_length)) w2;
                                     w4 = (if res_status r = PSA_SUCCESS
                                           then psa_write (msg_handle msg) 0 None (res_length r) w3 else w3);
                                     w5 = psa_write (msg_handle msg) 1 (Some (res_length r)) (sizeof_size_t env) w4
                                 in Done (res_status r) (mbedtls_free key w5))))
          | PSA_EXPORT_PUBLIC_KEY \<Rightarrow>
              (let key_length = out_size msg 0
               in if \<not> psa_crypto_access_control_is_handle_permitted
                         (key_mng_handle psa_key_mng) pid w1
                  then Done PSA_ERROR_INVALID_HANDLE w1
                  else (let (key, w2) = mbedtls_calloc env key_length w1
                        in if key = NULL then Done PSA_ERROR_INSUFFICIENT_MEMORY w2
                           else (let (r, w3) = call_engine env
                                       (Key (psa_export_public_key (key_mng_handle psa_key_mng)
                                               key_length)) w2;
                                     w4 = (if res_status r = PSA_SUCCESS
                                           then psa_write (msg_handle msg) 0 None (res_length r) w3 else w3);
                                     w5 = psa_write (msg_handle msg) 1 (Some (res_length r)) (sizeof_size_t env) w4
                                 in Done (res_status r) (mbedtls_free key w5))))
          | PSA_GENERATE_KEY \<Rightarrow>
              (let bits_size = in_size msg 1;
                   parameter_size = in_size msg 2
               in if \<not> psa_crypto_access_control_is_handle_permitted
                         (key_mng_handle psa_key_mng) pid w1
                  then Done PSA_ERROR_INVALID_HANDLE w1
                  else and_then (psa_read env (msg_handle msg) 1 (sizeof_size_t env) bits_size w1)
                         (\<lambda>bytes_read w2.
                           if bytes_read \<noteq> bits_size then Panic w2
                           else (let bits = iv_scalar iv 1;
                                     generate = (\<lambda>parameter w4.
                                       let (r, w5) = call_engine env
                                             (Key (psa_generate_key (key_mng_handle psa_key_mng)
                                                     (key_mng_type psa_key_mng) bits parameter
                                                     parameter_size)) w4
                                       in Done (res_status r) (mbedtls_free parameter w5))
                                 in if PSA_KEY_TYPE_RSA_KEYPAIR env = key_mng_type psa_key_mng \<and>
                                       parameter_size \<noteq> 0
                                    then (let (parameter, w3) =
                                                mbedtls_calloc env parameter_size w2
                                          in if parameter = NULL
                                             then Done PSA_ERROR_INSUFFICIENT_MEMORY w3
                                             else and_then (psa_read env (msg_handle msg) 2 parameter_size parameter_size w3)
                                                 (\<lambda>bytes_read w4.
                                                      if bytes_read \<noteq> parameter_size
                                                      then Panic w4
                                                      else generate parameter w4))
                                    else generate NULL w2)))
          | PSA_ALLOCATE_KEY \<Rightarrow>
              (let (r, w2) = call_engine env (Key psa_allocate_key) w1
               in Done (res_status r)
                    (if res_status r = PSA_SUCCESS
                     then psa_write (msg_handle msg) 0 (Some (unat (res_handle r))) (sizeof_psa_key_handle_t env)
                            (psa_crypto_access_control_register_handle (res_handle r) pid w2)
                     else w2))
          | PSA_CREATE_KEY \<Rightarrow>
              and_then (psa_read env (msg_handle msg) 1 sizeof_uint32_t (in_size msg 1) w1)
                (\<lambda>bytes_read w2.
                  if bytes_read \<noteq> in_size msg 1 then Panic w2
                  else if in_size msg 1 \<noteq> CLIENT_PSA_KEY_ID_SIZE_IN_BYTES then Panic w2
                  else (let (r, w3) = call_engine env
                              (Key (psa_create_key (key_mng_lifetime psa_key_mng)
                                      (client_id msg) (iv_scalar iv 1))) w2
                        in Done (res_status r)
                             (if res_status r = PSA_SUCCESS
                              then psa_write (msg_handle msg) 0 (Some (unat (res_handle r)))
                                     (sizeof_psa_key_handle_t env)
                                     (psa_crypto_access_control_register_handle
                                        (res_handle r) pid w3)
                              else w3)))
          | PSA_OPEN_KEY \<Rightarrow>
              and_then (psa_read env (msg_handle msg) 1 sizeof_uint32_t (in_size msg 1) w1)
                (\<lambda>bytes_read w2.
                  if bytes_read \<noteq> in_size msg 1 then Panic w2
                  else if in_size msg 1 \<noteq> CLIENT_PSA_KEY_ID_SIZE_IN_BYTES then Panic w2
                  else (let (r, w3) = call_engine env
                              (Key (psa_open_key (key_mng_lifetime psa_key_mng)
                                      (client_id msg) (iv_scalar iv 1))) w2
                        in Done (res_status r)
                             (if res_status r = PSA_SUCCESS
                              then psa_write (msg_handle msg) 0 (Some (unat (res_handle r)))
                                     (sizeof_psa_key_handle_t env)
                                     (psa_crypto_access_control_register_handle
                                        (res_handle r) pid w3)
                              else w3)))
          | PSA_CLOSE_KEY \<Rightarrow>
              if \<not> psa_crypto_access_control_is_handle_permitted
                     (key_mng_handle psa_key_mng) pid w1
              then Done PSA_ERROR_INVALID_HANDLE w1
              else (let (r, w2) = call_engine env
                          (Key (psa_close_key (key_mng_handle psa_key_mng))) w1
                    in Done (res_status r)
                         (if res_status r = PSA_SUCCESS
                          then psa_crypto_access_control_unregister_handle
                                 (key_mng_handle psa_key_mng) w2
                          else w2))
          | _ \<Rightarrow> Done PSA_ERROR_NOT_SUPPORTED w1)))"

text \<open>
  \<^verbatim>\<open>psa_key_management_operation\<close>: the switch over the message type, then the one
  \<^verbatim>\<open>psa_reply\<close>. \<^verbatim>\<open>status\<close> starts as \<^verbatim>\<open>PSA_SUCCESS\<close>.
\<close>

definition psa_key_management_operation ::
  "env \<Rightarrow> psa_msg_t \<Rightarrow> in_vec_t \<Rightarrow> world \<Rightarrow> unit result" where
  "psa_key_management_operation env msg iv w =
     and_then
       (case msg_type msg of
          PSA_IPC_CONNECT \<Rightarrow> Done PSA_SUCCESS w
        | PSA_IPC_DISCONNECT \<Rightarrow> Done PSA_SUCCESS w
        | PSA_IPC_CALL \<Rightarrow> key_management_call env msg iv w
        | PSA_IPC_OTHER t \<Rightarrow> Panic w)
       (\<lambda>status w1. Done () (psa_reply (msg_handle msg) status w1))"

subsection \<open>Entropy injection and random numbers\<close>

text \<open>
  \<^verbatim>\<open>entropy_on_call\<close> has two bodies, chosen at compile time by
  \<^verbatim>\<open>MBEDTLS_ENTROPY_NV_SEED && MBEDTLS_PSA_HAS_ITS_IO\<close>; \<open>entropy_nv_seed\<close> is that
  configuration.
\<close>

definition entropy_on_call :: handler where
  "entropy_on_call env msg iv w =
     (if entropy_nv_seed env
      then (let seed_size = in_size msg 0
            in if MBEDTLS_ENTROPY_MAX_SEED_SIZE env < seed_size
               then Done PSA_ERROR_INVALID_ARGUMENT w
               else (let (seed, w1) = mbedtls_calloc env seed_size w
                     in if seed = NULL then Done PSA_ERROR_INSUFFICIENT_MEMORY w1
                        else and_then (read_message_param env msg 0 seed_size w1) (\<lambda>u w2.
                               let (r, w3) = call_engine env
                                     (System (mbedtls_psa_inject_entropy seed_size)) w2
                               in Done (res_status r) (mbedtls_free seed w3))))
      else Done PSA_ERROR_NOT_SUPPORTED w)"

definition rng_on_call :: handler where
  "rng_on_call env msg iv w =
     (let random_size = out_size msg 0;
          (random, w1) = mbedtls_calloc env random_size w
      in if random = NULL then Done PSA_ERROR_INSUFFICIENT_MEMORY w1
         else (let (r, w2) = call_engine env (System (psa_generate_random random_size)) w1;
                   w3 = (if res_status r = PSA_SUCCESS
                         then psa_write (msg_handle msg) 0 None random_size w2 else w2)
               in Done (res_status r) (mbedtls_free random w3)))"

subsection \<open>Key derivation and agreement\<close>

text \<open>The body of \<^verbatim>\<open>case PSA_IPC_CALL\<close> of \<^verbatim>\<open>psa_crypto_generator_operations\<close>.\<close>

definition generator_call :: handler where
  "generator_call env msg iv w =
     (if in_size msg 0 \<noteq> sizeof_psa_crypto_derivation_ipc_t env
      then Done PSA_ERROR_COMMUNICATION_FAILURE w
      else and_then (psa_read env (msg_handle msg) 0 (sizeof_psa_crypto_derivation_ipc_t env) (in_size msg 0) w)
             (\<lambda>bytes_read w1.
               if bytes_read \<noteq> in_size msg 0 then Panic w1
               else (let psa_crypto_ipc = iv_derivation iv
                     in case derivation_func psa_crypto_ipc of
            PSA_GET_GENERATOR_CAPACITY \<Rightarrow>
              (let (r, w2) = call_engine env
                     (Generator (psa_get_generator_capacity (rhandle msg))) w1
               in Done (res_status r)
                    (if res_status r = PSA_SUCCESS
                     then psa_write (msg_handle msg) 0 (Some (res_length r)) (sizeof_size_t env) w2 else w2))
          | PSA_GENERATOR_READ \<Rightarrow>
              (let output_length = out_size msg 0;
                   (output, w2) = mbedtls_calloc env output_length w1
               in if output = NULL then Done PSA_ERROR_INSUFFICIENT_MEMORY w2
                  else (let (r, w3) = call_engine env
                              (Generator (psa_generator_read (rhandle msg) output_length)) w2;
                            w4 = (if res_status r = PSA_SUCCESS
                                  then psa_write (msg_handle msg) 0 None output_length w3 else w3)
                        in Done (res_status r) (mbedtls_free output w4)))
          | PSA_GENERATOR_IMPORT_KEY \<Rightarrow>
              if \<not> psa_crypto_access_control_is_handle_permitted
                     (derivation_handle psa_crypto_ipc) (client_id msg) w1
              then Done PSA_ERROR_INVALID_HANDLE w1
              else and_then (psa_read env (msg_handle msg) 1 (sizeof_psa_key_type_t env) (in_size msg 1) w1)
                     (\<lambda>bytes_read w2.
                       if bytes_read \<noteq> sizeof_psa_key_type_t env then Panic w2
                       else and_then (psa_read env (msg_handle msg) 2 (sizeof_size_t env) (in_size msg 2) w2)
                              (\<lambda>bytes_read w3.
                                if bytes_read \<noteq> sizeof_size_t env then Panic w3
                                else (let (r, w4) = call_engine env
                                            (Generator (psa_generator_import_key
                                               (derivation_handle psa_crypto_ipc)
                                               (iv_scalar iv 1) (iv_scalar iv 2)
                                               (rhandle msg))) w3
                                      in Done (res_status r) w4)))
          | PSA_GENERATOR_ABORT \<Rightarrow>
              (let (r, w2) = call_engine env (Generator (psa_generator_abort (rhandle msg))) w1
               in Done (res_status r) w2)
          | PSA_KEY_DERIVATION \<Rightarrow>
              if \<not> psa_crypto_access_control_is_handle_permitted
                     (derivation_handle psa_crypto_ipc) (client_id msg) w1
              then Done PSA_ERROR_INVALID_HANDLE w1
              else (let (salt, w2) = mbedtls_calloc env (in_size msg 1) w1
                    in if salt = NULL then Done PSA_ERROR_INSUFFICIENT_MEMORY w2
                       else and_then (psa_read env (msg_handle msg) 1 (in_size msg 1) (in_size msg 1) w2)
                              (\<lambda>bytes_read w3.
                                if bytes_read \<noteq> in_size msg 1 then Panic w3
                                else (let (label, w4) = mbedtls_calloc env (in_size msg 2) w3
                                      in if label = NULL
                                         then Done PSA_ERROR_INSUFFICIENT_MEMORY
                                                (mbedtls_free salt w4)
                                         else and_then (psa_read env (msg_handle msg) 2 (in_size msg 2) (in_size msg 2) w4)
                                             (\<lambda>bytes_read w5.
                                                  if bytes_read \<noteq> in_size msg 2 then Panic w5
                                                  else (let (r, w6) = call_engine env
                                                              (Generator (psa_key_derivation
                                                                 (rhandle msg)
                                                                 (derivation_handle psa_crypto_ipc)
                                                                 (derivation_alg psa_crypto_ipc)
                                                                 (in_size msg 1) (in_size msg 2)
                                                                 (derivation_capacity
                                                                    psa_crypto_ipc))) w5
                                                        in Done (res_status r)
                                                             (mbedtls_free salt
                                                                (mbedtls_free label w6)))))))
          | PSA_KEY_AGREEMENT \<Rightarrow>
              if \<not> psa_crypto_access_control_is_handle_permitted
                     (derivation_handle psa_crypto_ipc) (client_id msg) w1
              then Done PSA_ERROR_INVALID_HANDLE w1
              else (let (private_key, w2) = mbedtls_calloc env (in_size msg 1) w1
                    in if private_key = NULL then Done PSA_ERROR_INSUFFICIENT_MEMORY w2
                       else and_then (psa_read env (msg_handle msg) 1 (in_size msg 1) (in_size msg 1) w2)
                              (\<lambda>bytes_read w3.
                                if bytes_read \<noteq> in_size msg 1 then Panic w3
                                else (let (r, w4) = call_engine env
                                            (Generator (psa_key_agreement (rhandle msg)
                                               (derivation_handle psa_crypto_ipc)
                                               (in_size msg 1)
                                               (derivation_alg psa_crypto_ipc))) w3
                                      in Done (res_status r) (mbedtls_free private_key w4))))
          | _ \<Rightarrow> Done PSA_ERROR_NOT_SUPPORTED w1)))"

text \<open>
  The bodies of \<^verbatim>\<open>case PSA_IPC_CONNECT\<close> and of \<^verbatim>\<open>case PSA_IPC_DISCONNECT\<close> of
  \<^verbatim>\<open>psa_crypto_generator_operations\<close>.
\<close>

definition generator_connect :: handler where
  "generator_connect env msg iv w =
     (let (psa_operation, w1) = mbedtls_calloc env (sizeof_psa_crypto_generator_t env) w
      in if psa_operation = NULL then Done PSA_ERROR_INSUFFICIENT_MEMORY w1
         else Done PSA_SUCCESS (psa_set_rhandle (msg_handle msg) psa_operation w1))"

definition generator_disconnect :: handler where
  "generator_disconnect env msg iv w =
     (let (r, w1) = call_engine env (Generator (psa_generator_abort (rhandle msg))) w
      in Done PSA_SUCCESS (if rhandle msg \<noteq> NULL then mbedtls_free (rhandle msg) w1 else w1))"

text \<open>
  \<^verbatim>\<open>psa_crypto_generator_operations\<close>: the switch over the message type, then the one
  \<^verbatim>\<open>psa_reply\<close>. \<^verbatim>\<open>status\<close> starts as \<^verbatim>\<open>PSA_SUCCESS\<close>.
\<close>

definition psa_crypto_generator_operations ::
  "env \<Rightarrow> psa_msg_t \<Rightarrow> in_vec_t \<Rightarrow> world \<Rightarrow> unit result" where
  "psa_crypto_generator_operations env msg iv w =
     and_then
       (case msg_type msg of
          PSA_IPC_CONNECT \<Rightarrow> generator_connect env msg iv w
        | PSA_IPC_CALL \<Rightarrow> generator_call env msg iv w
        | PSA_IPC_DISCONNECT \<Rightarrow> generator_disconnect env msg iv w
        | PSA_IPC_OTHER t \<Rightarrow> Panic w)
       (\<lambda>status w1. Done () (psa_reply (msg_handle msg) status w1))"

section \<open>The dispatch loop\<close>

text \<open>
  \<^verbatim>\<open>message_handler\<close>; a handler that is \<open>NULL\<close> in the source is \<open>None\<close>, and the
  status stays \<^verbatim>\<open>PSA_SUCCESS\<close>.
\<close>

definition message_handler ::
  "env \<Rightarrow> psa_msg_t \<Rightarrow> in_vec_t \<Rightarrow> handler option \<Rightarrow> handler option \<Rightarrow> handler option
     \<Rightarrow> world \<Rightarrow> unit result" where
  "message_handler env msg iv connect_handler call_handler disconnect_handler w =
     and_then
       (case msg_type msg of
          PSA_IPC_CONNECT \<Rightarrow>
            (case connect_handler of None \<Rightarrow> Done PSA_SUCCESS w | Some h \<Rightarrow> h env msg iv w)
        | PSA_IPC_CALL \<Rightarrow>
            (case call_handler of None \<Rightarrow> Done PSA_SUCCESS w | Some h \<Rightarrow> h env msg iv w)
        | PSA_IPC_DISCONNECT \<Rightarrow>
            (case disconnect_handler of None \<Rightarrow> Done PSA_SUCCESS w | Some h \<Rightarrow> h env msg iv w)
        | PSA_IPC_OTHER t \<Rightarrow> Panic w)
       (\<lambda>status w1. Done () (psa_reply (msg_handle msg) status w1))"

text \<open>What \<^verbatim>\<open>crypto_main\<close> runs for a message of each signal.\<close>

definition serve :: "env \<Rightarrow> service \<Rightarrow> psa_msg_t \<Rightarrow> in_vec_t \<Rightarrow> world \<Rightarrow> unit result" where
  "serve env s msg iv w =
     (case s of
        PSA_CRYPTO_INIT \<Rightarrow> message_handler env msg iv None (Some crypto_init_on_call) None w
      | PSA_MAC \<Rightarrow>
          message_handler env msg iv (Some mac_on_connect) (Some mac_on_call)
            (Some mac_on_disconnect) w
      | PSA_HASH \<Rightarrow>
          message_handler env msg iv (Some hash_on_connect) (Some hash_on_call)
            (Some hash_on_disconnect) w
      | PSA_SYMMETRIC \<Rightarrow>
          message_handler env msg iv (Some symmetric_on_connect) (Some symmetric_on_call)
            (Some symmetric_on_disconnect) w
      | PSA_ASYMMETRIC \<Rightarrow> message_handler env msg iv None (Some asymmetric_on_call) None w
      | PSA_AEAD \<Rightarrow> message_handler env msg iv None (Some aead_on_call) None w
      | PSA_KEY_MNG \<Rightarrow> psa_key_management_operation env msg iv w
      | PSA_RNG \<Rightarrow> message_handler env msg iv None (Some rng_on_call) None w
      | PSA_CRYPTO_FREE \<Rightarrow> message_handler env msg iv None (Some crypto_free_on_call) None w
      | PSA_GENERATOR \<Rightarrow> psa_crypto_generator_operations env msg iv w
      | PSA_ENTROPY_INJECT \<Rightarrow> message_handler env msg iv None (Some entropy_on_call) None w)"

text \<open>
  The signals in the order in which the body of \<^verbatim>\<open>while (1)\<close> tests them.
\<close>

definition signal_order :: "service list" where
  "signal_order =
     [PSA_CRYPTO_INIT, PSA_MAC, PSA_HASH, PSA_SYMMETRIC, PSA_ASYMMETRIC, PSA_AEAD,
      PSA_KEY_MNG, PSA_RNG, PSA_CRYPTO_FREE, PSA_GENERATOR, PSA_ENTROPY_INJECT]"

text \<open>
  The sequence of \<^verbatim>\<open>if (signal & S) { if (psa_get(S, &msg) != PSA_SUCCESS) continue; ... }\<close>
  blocks, from a position in that order on. \<^verbatim>\<open>continue\<close> ends the iteration of the
  enclosing \<^verbatim>\<open>while\<close>: the blocks after it are not run.
\<close>

fun service_signals :: "env \<Rightarrow> (service \<Rightarrow> bool) \<Rightarrow> service list \<Rightarrow> world \<Rightarrow> unit result" where
  "service_signals env signal [] w = Done () w"
| "service_signals env signal (s # rest) w =
     (if signal s
      then (case psa_get env s w of
              (None, w1) \<Rightarrow> Done () w1
            | (Some (msg, iv), w1) \<Rightarrow>
                and_then (serve env s msg iv w1) (\<lambda>u w2. service_signals env signal rest w2))
      else service_signals env signal rest w)"

text \<open>One iteration of the loop of \<^verbatim>\<open>crypto_main\<close>.\<close>

definition crypto_main_iteration :: "env \<Rightarrow> world \<Rightarrow> unit result" where
  "crypto_main_iteration env w =
     (let (signal, w1) = psa_wait env w in service_signals env signal signal_order w1)"

text \<open>
  \<^verbatim>\<open>crypto_main\<close> never returns; the model runs a given number of iterations of its
  loop.
\<close>

fun crypto_main :: "env \<Rightarrow> nat \<Rightarrow> world \<Rightarrow> unit result" where
  "crypto_main env 0 w = Done () w"
| "crypto_main env (Suc n) w =
     and_then (crypto_main_iteration env w) (\<lambda>u w1. crypto_main env n w1)"

section \<open>Reading the trace\<close>

text \<open>
  The engine calls, the replies (message handle and status), the writes and the frees of
  a list of events, in order.
\<close>

fun engine_calls :: "event list \<Rightarrow> engine_call list" where
  "engine_calls [] = []"
| "engine_calls (Engine c # es) = c # engine_calls es"
| "engine_calls (e # es) = engine_calls es"

fun replies :: "event list \<Rightarrow> (nat \<times> psa_status_t) list" where
  "replies [] = []"
| "replies (Reply h status # es) = (h, status) # replies es"
| "replies (e # es) = replies es"

fun writes :: "event list \<Rightarrow> (nat \<times> nat \<times> nat option \<times> nat) list" where
  "writes [] = []"
| "writes (Write h i v n # es) = (h, i, v, n) # writes es"
| "writes (e # es) = writes es"

fun frees :: "event list \<Rightarrow> ptr list" where
  "frees [] = []"
| "frees (Free p # es) = p # frees es"
| "frees (e # es) = frees es"

text \<open>
  The dispatch events of a list of events: the message retrievals and the replies.
\<close>

fun dispatch_skeleton :: "event list \<Rightarrow> event list" where
  "dispatch_skeleton [] = []"
| "dispatch_skeleton (Get s m # es) = Get s m # dispatch_skeleton es"
| "dispatch_skeleton (Reply h status # es) = Reply h status # dispatch_skeleton es"
| "dispatch_skeleton (e # es) = dispatch_skeleton es"

text \<open>
  The dispatch events that one iteration of the loop may leave for a list of asserted
  signals: for each signal in turn one retrieval, followed by exactly one reply, to the
  message retrieved, when it succeeded; after a retrieval that failed there is nothing
  more, whatever signals are left.
\<close>

fun serviced_in_order :: "service list \<Rightarrow> event list \<Rightarrow> bool" where
  "serviced_in_order [] sk = (sk = [])"
| "serviced_in_order (s # sigs) [Get s' None] = (s = s')"
| "serviced_in_order (s # sigs) (Get s' (Some h) # Reply h' status # sk) =
     (s = s' \<and> h = h' \<and> serviced_in_order sigs sk)"
| "serviced_in_order (s # sigs) sk = False"

text \<open>
  The handler set of each service kind, as the specification names it: the handler for
  a message of each type, if the kind has one. Key management answers Connect and
  Disconnect without a handler; its handler for a Call, and the three handlers of key
  derivation, are the bodies of the switch over the message type in their functions.
\<close>

definition handler_set :: "service \<Rightarrow> msg_type_t \<Rightarrow> handler option" where
  "handler_set s t =
     (case t of
        PSA_IPC_CONNECT \<Rightarrow>
          (case s of
             PSA_MAC \<Rightarrow> Some mac_on_connect
           | PSA_HASH \<Rightarrow> Some hash_on_connect
           | PSA_SYMMETRIC \<Rightarrow> Some symmetric_on_connect
           | PSA_GENERATOR \<Rightarrow> Some generator_connect
           | _ \<Rightarrow> None)
      | PSA_IPC_CALL \<Rightarrow>
          (case s of
             PSA_CRYPTO_INIT \<Rightarrow> Some crypto_init_on_call
           | PSA_MAC \<Rightarrow> Some mac_on_call
           | PSA_HASH \<Rightarrow> Some hash_on_call
           | PSA_SYMMETRIC \<Rightarrow> Some symmetric_on_call
           | PSA_ASYMMETRIC \<Rightarrow> Some asymmetric_on_call
           | PSA_AEAD \<Rightarrow> Some aead_on_call
           | PSA_KEY_MNG \<Rightarrow> Some key_management_call
           | PSA_RNG \<Rightarrow> Some rng_on_call
           | PSA_CRYPTO_FREE \<Rightarrow> Some crypto_free_on_call
           | PSA_GENERATOR \<Rightarrow> Some generator_call
           | PSA_ENTROPY_INJECT \<Rightarrow> Some entropy_on_call)
      | PSA_IPC_DISCONNECT \<Rightarrow>
          (case s of
             PSA_MAC \<Rightarrow> Some mac_on_disconnect
           | PSA_HASH \<Rightarrow> Some hash_on_disconnect
           | PSA_SYMMETRIC \<Rightarrow> Some symmetric_on_disconnect
           | PSA_GENERATOR \<Rightarrow> Some generator_disconnect
           | _ \<Rightarrow> None)
      | PSA_IPC_OTHER n \<Rightarrow> None)"

text \<open>
  What the specification asks of one iteration, for the asserted signals in their order,
  from the state \<open>w\<close> after the wait to the state \<open>w'\<close> at the end of the iteration:
  for each signal one retrieval; when it fails the iteration is over; when it gives a
  message of one of the three types, the handler of the set for that type runs on the
  message in the state after the retrieval and returns a status (success, without a
  run, when the set has no handler for the type), that status is the one reply to the
  message, and the next signal is taken from the state after the reply.
\<close>

fun serviced :: "env \<Rightarrow> service list \<Rightarrow> world \<Rightarrow> world \<Rightarrow> bool" where
  "serviced env [] w w' = (w' = w)"
| "serviced env (s # sigs) w w' =
     (case channel_get env (trace w) s of
        None \<Rightarrow> w' = emit (Get s None) w
      | Some (msg, iv) \<Rightarrow>
          (let w1 = emit (Get s (Some (msg_handle msg))) w
           in case msg_type msg of
                PSA_IPC_OTHER n \<Rightarrow> False
              | _ \<Rightarrow>
                 (case (case handler_set s (msg_type msg) of
                          None \<Rightarrow> Done PSA_SUCCESS w1
                        | Some h \<Rightarrow> h env msg iv w1) of
                    Done status w2 \<Rightarrow>
                      serviced env sigs (emit (Reply (msg_handle msg) status) w2) w'
                  | _ \<Rightarrow> False)))"

text \<open>
  The header of parameter 0 that the handlers of a service decode, read for its
  operation code and its key handle. The services without a header (crypto init and
  free, random numbers, entropy injection) have neither.
\<close>

definition request_func :: "service \<Rightarrow> in_vec_t \<Rightarrow> psa_sec_function_t option" where
  "request_func s iv =
     (case s of
        PSA_MAC \<Rightarrow> Some (ipc_func (iv_crypto_ipc iv))
      | PSA_HASH \<Rightarrow> Some (ipc_func (iv_crypto_ipc iv))
      | PSA_SYMMETRIC \<Rightarrow> Some (ipc_func (iv_crypto_ipc iv))
      | PSA_ASYMMETRIC \<Rightarrow> Some (asym_func (iv_asymmetric iv))
      | PSA_AEAD \<Rightarrow> Some (aead_func (iv_aead iv))
      | PSA_KEY_MNG \<Rightarrow> Some (key_mng_func (iv_key_mng iv))
      | PSA_GENERATOR \<Rightarrow> Some (derivation_func (iv_derivation iv))
      | _ \<Rightarrow> None)"

definition request_handle :: "service \<Rightarrow> in_vec_t \<Rightarrow> psa_key_handle_t" where
  "request_handle s iv =
     (case s of
        PSA_ASYMMETRIC \<Rightarrow> asym_handle (iv_asymmetric iv)
      | PSA_AEAD \<Rightarrow> aead_handle (iv_aead iv)
      | PSA_KEY_MNG \<Rightarrow> key_mng_handle (iv_key_mng iv)
      | PSA_GENERATOR \<Rightarrow> derivation_handle (iv_derivation iv)
      | _ \<Rightarrow> ipc_handle (iv_crypto_ipc iv))"

text \<open>
  The sub-operations that take a key handle from the caller: the service and the
  operation code of each.
\<close>

definition handle_taking :: "(service \<times> psa_sec_function_t) list" where
  "handle_taking =
     [(PSA_MAC, PSA_MAC_SIGN_SETUP), (PSA_MAC, PSA_MAC_VERIFY_SETUP),
      (PSA_SYMMETRIC, PSA_CIPHER_ENCRYPT_SETUP), (PSA_SYMMETRIC, PSA_CIPHER_DECRYPT_SETUP),
      (PSA_ASYMMETRIC, PSA_ASYMMETRIC_SIGN), (PSA_ASYMMETRIC, PSA_ASYMMETRIC_VERIFY),
      (PSA_ASYMMETRIC, PSA_ASYMMETRIC_ENCRYPT), (PSA_ASYMMETRIC, PSA_ASYMMETRIC_DECRYPT),
      (PSA_AEAD, PSA_AEAD_ENCRYPT), (PSA_AEAD, PSA_AEAD_DECRYPT),
      (PSA_KEY_MNG, PSA_GET_KEY_POLICY), (PSA_KEY_MNG, PSA_SET_KEY_POLICY),
      (PSA_KEY_MNG, PSA_IMPORT_KEY), (PSA_KEY_MNG, PSA_EXPORT_KEY),
      (PSA_KEY_MNG, PSA_EXPORT_PUBLIC_KEY), (PSA_KEY_MNG, PSA_GENERATE_KEY),
      (PSA_KEY_MNG, PSA_DESTROY_KEY), (PSA_KEY_MNG, PSA_CLOSE_KEY),
      (PSA_KEY_MNG, PSA_GET_KEY_LIFETIME), (PSA_KEY_MNG, PSA_GET_KEY_INFORMATION),
      (PSA_GENERATOR, PSA_GENERATOR_IMPORT_KEY), (PSA_GENERATOR, PSA_KEY_DERIVATION),
      (PSA_GENERATOR, PSA_KEY_AGREEMENT)]"

text \<open>
  The length of the fixed header that a service compares the declared length of
  parameter 0 with; only key management and key derivation make the comparison.
\<close>

definition checked_header_size :: "env \<Rightarrow> service \<Rightarrow> nat option" where
  "checked_header_size env s =
     (case s of
        PSA_KEY_MNG \<Rightarrow> Some (sizeof_psa_key_mng_ipc_t env)
      | PSA_GENERATOR \<Rightarrow> Some (sizeof_psa_crypto_derivation_ipc_t env)
      | _ \<Rightarrow> None)"

text \<open>
  The size of the fixed header that the handlers of a service read parameter 0 into:
  the size of the local \<^verbatim>\<open>crypto_ipc\<close>, \<^verbatim>\<open>psa_key_mng\<close> or \<^verbatim>\<open>psa_crypto_ipc\<close> of the
  handler.
\<close>

definition header_size :: "env \<Rightarrow> service \<Rightarrow> nat option" where
  "header_size env s =
     (case s of
        PSA_MAC \<Rightarrow> Some (sizeof_psa_crypto_ipc_t env)
      | PSA_HASH \<Rightarrow> Some (sizeof_psa_crypto_ipc_t env)
      | PSA_SYMMETRIC \<Rightarrow> Some (sizeof_psa_crypto_ipc_t env)
      | PSA_ASYMMETRIC \<Rightarrow> Some (sizeof_psa_crypto_ipc_asymmetric_t env)
      | PSA_AEAD \<Rightarrow> Some (sizeof_psa_crypto_ipc_aead_t env)
      | PSA_KEY_MNG \<Rightarrow> Some (sizeof_psa_key_mng_ipc_t env)
      | PSA_GENERATOR \<Rightarrow> Some (sizeof_psa_crypto_derivation_ipc_t env)
      | _ \<Rightarrow> None)"

text \<open>
  The chunk sizes that the specification gives for a transfer of \<open>L\<close> bytes with chunk
  size \<^verbatim>\<open>MAX_DATA_CHUNK_SIZE_IN_BYTES\<close>: \<open>min(remaining, chunk size)\<close> until nothing
  remains.
\<close>

function chunk_sizes :: "nat \<Rightarrow> nat list" where
  "chunk_sizes L =
     (if L = 0 then []
      else min L MAX_DATA_CHUNK_SIZE_IN_BYTES #
           chunk_sizes (L - min L MAX_DATA_CHUNK_SIZE_IN_BYTES))"
  by pat_completeness auto
termination
  by (relation "measure (\<lambda>L. L)") (auto simp: MAX_DATA_CHUNK_SIZE_IN_BYTES_def)

declare chunk_sizes.simps [simp del]

text \<open>
  A run from \<open>w\<close> is quiet when it only appends events to the trace of \<open>w\<close> and none
  of them is a dispatch event.
\<close>

definition quiet :: "world \<Rightarrow> 'a result \<Rightarrow> bool" where
  "quiet w r \<longleftrightarrow> (\<exists>d. trace (final r) = trace w @ d \<and> dispatch_skeleton d = [])"

text \<open>
  A run from \<open>w\<close> has replied once to the message of handle \<open>h\<close> when it only appends
  events to the trace of \<open>w\<close> and exactly one of them is a dispatch event, a reply to
  \<open>h\<close>.
\<close>

definition replied_once :: "nat \<Rightarrow> world \<Rightarrow> 'a result \<Rightarrow> bool" where
  "replied_once h w r \<longleftrightarrow>
     (\<exists>d status. trace (final r) = trace w @ d \<and> dispatch_skeleton d = [Reply h status])"

section \<open>The lifetime of an operation context\<close>

text \<open>
  A run from \<open>w\<close> keeps the block \<open>p\<close> when the block is live at its end and the run
  only appends events, none of which frees \<open>p\<close>.
\<close>

definition keeps :: "ptr \<Rightarrow> world \<Rightarrow> 'a result \<Rightarrow> bool" where
  "keeps p w r \<longleftrightarrow>
     p \<in> heap (final r) \<and> (\<exists>d. trace (final r) = trace w @ d \<and> Free p \<notin> set d)"

text \<open>
  The clone slots that reference the hash context \<open>p\<close> of caller \<open>c\<close>: there is at most
  one, and it belongs to \<open>c\<close>.
\<close>

definition clone_owner_inv :: "int32_t \<Rightarrow> ptr \<Rightarrow> psa_spm_hash_clone_t list \<Rightarrow> bool" where
  "clone_owner_inv c p clones \<longleftrightarrow>
     (\<forall>i j. i < length clones \<and> j < length clones \<and>
            source_operation (clones ! i) = p \<and> source_operation (clones ! j) = p
            \<longrightarrow> i = j) \<and>
     (\<forall>i. i < length clones \<and> source_operation (clones ! i) = p
          \<longrightarrow> partition_id (clones ! i) = c)"

text \<open>
  The messages that the loop serves one after the other, each with the signal it came
  in on.
\<close>

fun serve_all :: "env \<Rightarrow> (service \<times> psa_msg_t \<times> in_vec_t) list \<Rightarrow> world \<Rightarrow> unit result" where
  "serve_all env [] w = Done () w"
| "serve_all env ((s, msg, iv) # ms) w =
     and_then (serve env s msg iv w) (\<lambda>u w1. serve_all env ms w1)"

text \<open>
  The life of one connection to service \<open>s\<close>: its Connect message, then any messages
  (its own Calls among those of other connections), then its Disconnect message.
\<close>

definition lifetime ::
  "env \<Rightarrow> service \<Rightarrow> psa_msg_t \<times> in_vec_t \<Rightarrow> (service \<times> psa_msg_t \<times> in_vec_t) list
     \<Rightarrow> psa_msg_t \<times> in_vec_t \<Rightarrow> world \<Rightarrow> unit result" where
  "lifetime env s connect ms disconnect w =
     and_then (serve env s (fst connect) (snd connect) w) (\<lambda>u w1.
     and_then (serve_all env ms w1) (\<lambda>u w2.
       serve env s (fst disconnect) (snd disconnect) w2))"

text \<open>
  The Secure Channel keeps, for every connection, the context that the partition
  attached to it with \<^verbatim>\<open>psa_set_rhandle\<close>, and hands it back in \<^verbatim>\<open>msg->rhandle\<close> of
  every later message of the connection; a connection belongs to one service and one
  caller. The table of the attached contexts has, for the address of each, that service
  and that caller.
\<close>

type_synonym contexts = "ptr \<rightharpoonup> service \<times> int32_t"

text \<open>The contexts that a list of events attaches.\<close>

fun attached :: "event list \<Rightarrow> ptr list" where
  "attached [] = []"
| "attached (SetRhandle h p # es) = p # attached es"
| "attached (e # es) = attached es"

text \<open>
  A message of a signal is one the channel may deliver when a Connect carries no
  context, and any other message carries no context or a context attached to a
  connection of its service and its caller.
\<close>

definition of_session :: "contexts \<Rightarrow> service \<Rightarrow> psa_msg_t \<Rightarrow> bool" where
  "of_session ctx s msg \<longleftrightarrow>
     (case msg_type msg of
        PSA_IPC_CONNECT \<Rightarrow> rhandle msg = NULL
      | _ \<Rightarrow> rhandle msg = NULL \<or> ctx (rhandle msg) = Some (s, client_id msg))"

text \<open>
  The table after a message has been served with the events \<open>d\<close>: a Connect adds the
  contexts it attached, for the service and the caller of the message; a Disconnect
  ends the connection and removes its context.
\<close>

definition attach :: "contexts \<Rightarrow> service \<Rightarrow> psa_msg_t \<Rightarrow> event list \<Rightarrow> contexts" where
  "attach ctx s msg d =
     (case msg_type msg of
        PSA_IPC_CONNECT \<Rightarrow> fold (\<lambda>p c. c(p \<mapsto> (s, client_id msg))) (attached d) ctx
      | PSA_IPC_DISCONNECT \<Rightarrow> ctx(rhandle msg := None)
      | _ \<Rightarrow> ctx)"

text \<open>
  A list of messages served from the state \<open>w\<close> is one the channel may deliver, from
  the table \<open>ctx\<close> on, when each message is, for the table at the time it is served.
\<close>

fun in_session ::
  "env \<Rightarrow> contexts \<Rightarrow> (service \<times> psa_msg_t \<times> in_vec_t) list \<Rightarrow> world \<Rightarrow> bool" where
  "in_session env ctx [] w = True"
| "in_session env ctx ((s, msg, iv) # ms) w =
     (of_session ctx s msg \<and>
      (case serve env s msg iv w of
         Done u w' \<Rightarrow>
           in_session env (attach ctx s msg (drop (length (trace w)) (trace w'))) ms w'
       | _ \<Rightarrow> True))"

text \<open>
  What holds of the table and the state between messages: the attached contexts are
  live blocks; a clone slot references nothing or an attached hash context; and the
  slots that reference an attached hash context are at most one, of the caller of its
  connection.
\<close>

definition session_inv :: "contexts \<Rightarrow> world \<Rightarrow> bool" where
  "session_inv ctx w \<longleftrightarrow>
     ctx NULL = None \<and>
     (\<forall>q. ctx q \<noteq> None \<longrightarrow> q \<in> heap w) \<and>
     (\<forall>q. q \<noteq> NULL \<and> (\<forall>c. ctx q \<noteq> Some (PSA_HASH, c)) \<longrightarrow>
          (\<forall>slot \<in> set (psa_spm_hash_clones w). source_operation slot \<noteq> q)) \<and>
     (\<forall>q c. ctx q = Some (PSA_HASH, c) \<longrightarrow> clone_owner_inv c q (psa_spm_hash_clones w))"

text \<open>The abort operation and the size of the context of a service with a context.\<close>

definition abort_call :: "service \<Rightarrow> ptr \<Rightarrow> engine_call" where
  "abort_call s p =
     (case s of
        PSA_MAC \<Rightarrow> Mac (psa_mac_abort p)
      | PSA_HASH \<Rightarrow> Hash (psa_hash_abort p)
      | _ \<Rightarrow> Cipher (psa_cipher_abort p))"

definition context_size :: "env \<Rightarrow> service \<Rightarrow> nat" where
  "context_size env s =
     (case s of
        PSA_MAC \<Rightarrow> sizeof_psa_mac_operation_t env
      | PSA_HASH \<Rightarrow> sizeof_psa_hash_operation_t env
      | _ \<Rightarrow> sizeof_psa_cipher_operation_t env)"

section \<open>Concrete collaborators and inputs\<close>

text \<open>
  A well-behaved environment, used to run the model on concrete inputs: the engine
  reports success with zero outputs, the channel delivers every byte asked for and has no
  message pending, the allocator hands out the address after the number of events so far
  (never 0), and an uninitialised status holds \<open>PSA_ERROR_OTHER (- 1)\<close>. The sizes are
  those of a 32-bit target.
\<close>

definition engine_success :: engine_result where
  "engine_success =
     \<lparr>res_status = PSA_SUCCESS, res_length = 0, res_handle = 0, res_type = 0, res_bits = 0\<rparr>"

definition env_ok :: env where
  "env_ok =
     \<lparr>engine = (\<lambda>h c. engine_success),
      channel_read = (\<lambda>h k i n. n),
      channel_get = (\<lambda>h s. None),
      channel_wait = (\<lambda>h s. False),
      allocator = (\<lambda>h n. Suc (length h)),
      indeterminate_status = PSA_ERROR_OTHER (- 1),
      sizeof_psa_crypto_ipc_t = 12,
      sizeof_psa_crypto_ipc_asymmetric_t = 20,
      sizeof_psa_crypto_ipc_aead_t = 36,
      sizeof_psa_key_mng_ipc_t = 16,
      sizeof_psa_crypto_derivation_ipc_t = 16,
      sizeof_psa_key_policy_t = 8,
      PSA_AEAD_MAX_NONCE_SIZE = 12,
      sizeof_size_t = 4,
      sizeof_psa_key_type_t = 4,
      sizeof_psa_key_handle_t = 2,
      sizeof_psa_mac_operation_t = 64,
      sizeof_psa_hash_operation_t = 64,
      sizeof_psa_cipher_operation_t = 64,
      sizeof_psa_crypto_generator_t = 64,
      PSA_KEY_TYPE_RSA_KEYPAIR = 0x70010000,
      entropy_nv_seed = False,
      MBEDTLS_ENTROPY_MAX_SEED_SIZE = 1024\<rparr>"

text \<open>The state at start-up: the globals are zero-initialised, nothing has happened.\<close>

definition world0 :: world where
  "world0 =
     \<lparr>psa_spm_init_refence_counter = 0,
      psa_spm_hash_clones = replicate MAX_CONCURRENT_HASH_CLONES zeroed_clone,
      access_control = Map.empty,
      heap = {},
      trace = []\<rparr>"

text \<open>Input vectors with every header zeroed but for the operation code.\<close>

definition in_vec_of :: "psa_sec_function_t \<Rightarrow> psa_key_handle_t \<Rightarrow> in_vec_t" where
  "in_vec_of f h =
     \<lparr>iv_crypto_ipc = \<lparr>ipc_func = f, ipc_handle = h, ipc_alg = 0\<rparr>,
      iv_asymmetric = \<lparr>asym_func = f, asym_handle = h, asym_alg = 0,
                         asym_input_length = 0, asym_salt_length = 0\<rparr>,
      iv_aead = \<lparr>aead_func = f, aead_handle = h, aead_alg = 0, aead_nonce_size = 0,
                   aead_additional_data_length = 0, aead_input_length = 0\<rparr>,
      iv_key_mng = \<lparr>key_mng_handle = h, key_mng_lifetime = 0, key_mng_type = 0,
                      key_mng_func = f\<rparr>,
      iv_derivation = \<lparr>derivation_func = f, derivation_handle = h, derivation_alg = 0,
                         derivation_capacity = 0\<rparr>,
      iv_scalar = (\<lambda>i. 0)\<rparr>"

text \<open>
  A message of a given type from caller \<open>c\<close> on a connection whose context is \<open>p\<close>, with
  the declared input lengths \<open>ins\<close> (parameters 0, 1, ...; 0 beyond the list) and output
  capacities \<open>outs\<close>.
\<close>

definition msg_of :: "msg_type_t \<Rightarrow> int32_t \<Rightarrow> ptr \<Rightarrow> nat list \<Rightarrow> nat list \<Rightarrow> psa_msg_t" where
  "msg_of t c p ins outs =
     \<lparr>msg_type = t, msg_handle = 1, client_id = c, rhandle = p,
      in_size = (\<lambda>i. if i < length ins then ins ! i else 0),
      out_size = (\<lambda>i. if i < length outs then outs ! i else 0)\<rparr>"

text \<open>
  Two signals asserted, crypto init and random numbers, with a Call pending for every
  signal, of message handle 2 for random numbers and 1 for the others; and the same with
  no message to retrieve for crypto init.
\<close>

definition env_two_signals :: env where
  "env_two_signals =
     env_ok\<lparr>channel_wait := (\<lambda>h s. s = PSA_CRYPTO_INIT \<or> s = PSA_RNG),
            channel_get :=
              (\<lambda>h s. Some ((msg_of PSA_IPC_CALL 1 NULL [] [8])
                               \<lparr>msg_handle := (if s = PSA_RNG then 2 else 1)\<rparr>,
                             in_vec_of (PSA_FUNC_OTHER 0) 0))\<rparr>"

definition env_first_get_fails :: env where
  "env_first_get_fails =
     env_two_signals\<lparr>channel_get :=
       (\<lambda>h s. if s = PSA_CRYPTO_INIT then None else channel_get env_two_signals h s)\<rparr>"

text \<open>
  A hash connection of caller 1: its context is the block at address 1, and it begins a
  clone before it disconnects.
\<close>

definition hash_connect :: "psa_msg_t \<times> in_vec_t" where
  "hash_connect = (msg_of PSA_IPC_CONNECT 1 NULL [] [], in_vec_of (PSA_FUNC_OTHER 0) 0)"

definition hash_clone_begin :: "service \<times> psa_msg_t \<times> in_vec_t" where
  "hash_clone_begin =
     (PSA_HASH, msg_of PSA_IPC_CALL 1 1 [12] [4], in_vec_of PSA_HASH_CLONE_BEGIN 0)"

definition hash_disconnect :: "psa_msg_t \<times> in_vec_t" where
  "hash_disconnect = (msg_of PSA_IPC_DISCONNECT 1 1 [] [], in_vec_of (PSA_FUNC_OTHER 0) 0)"


section \<open>The scan loop over the clone slots\<close>

lemma scan_clones_Some:
  "scan_clones test clones i = Some j \<Longrightarrow>
     i \<le> j \<and> j < length clones \<and> test (clones ! j) \<and> (\<forall>k. i \<le> k \<and> k < j \<longrightarrow> \<not> test (clones ! k))"
proof (induction test clones i rule: scan_clones.induct)
  case (1 test clones i)
  show ?case
  proof (cases "i < length clones \<and> \<not> test (clones ! i)")
    case True
    then have "scan_clones test clones (Suc i) = Some j"
      using "1.prems" by (simp add: scan_clones.simps [of test clones i])
    with True "1.IH" have ih: "Suc i \<le> j \<and> j < length clones \<and> test (clones ! j) \<and>
        (\<forall>k. Suc i \<le> k \<and> k < j \<longrightarrow> \<not> test (clones ! k))"
      by simp
    show ?thesis
    proof (intro conjI allI impI)
      fix k assume k: "i \<le> k \<and> k < j"
      show "\<not> test (clones ! k)"
      proof (cases "k = i")
        case True then show ?thesis using \<open>i < length clones \<and> \<not> test (clones ! i)\<close> by simp
      next
        case False
        then have "Suc i \<le> k" using k by simp
        then show ?thesis using ih k by simp
      qed
    qed (use ih in simp_all)
  next
    case False
    then show ?thesis
      using "1.prems" by (auto simp: scan_clones.simps [of test clones i] split: if_splits)
  qed
qed

lemma scan_clones_None:
  "scan_clones test clones i = None \<longleftrightarrow> (\<forall>k. i \<le> k \<and> k < length clones \<longrightarrow> \<not> test (clones ! k))"
proof (induction test clones i rule: scan_clones.induct)
  case (1 test clones i)
  show ?case
  proof (cases "i < length clones")
    case False
    then show ?thesis by (auto simp: scan_clones.simps [of test clones i])
  next
    case True
    show ?thesis
    proof (cases "test (clones ! i)")
      case t: True
      with True show ?thesis by (auto simp: scan_clones.simps [of test clones i])
    next
      case f: False
      have "(\<forall>k. i \<le> k \<and> k < length clones \<longrightarrow> \<not> test (clones ! k)) =
            (\<forall>k. Suc i \<le> k \<and> k < length clones \<longrightarrow> \<not> test (clones ! k))"
        using f by (metis Suc_leD Suc_leI le_neq_implies_less)
      with True f "1.IH" show ?thesis by (simp add: scan_clones.simps [of test clones i])
    qed
  qed
qed

lemma scan_clones_None_set:
  "scan_clones test clones 0 = None \<longleftrightarrow> (\<forall>c \<in> set clones. \<not> test c)"
  by (simp add: scan_clones_None) (metis in_set_conv_nth)

lemma scan_clones_first:
  "j < length clones \<Longrightarrow> test (clones ! j) \<Longrightarrow> \<forall>k < j. \<not> test (clones ! k) \<Longrightarrow>
   scan_clones test clones 0 = Some j"
proof -
  assume a: "j < length clones" "test (clones ! j)" "\<forall>k < j. \<not> test (clones ! k)"
  obtain r where r: "scan_clones test clones 0 = Some r"
    using a scan_clones_None [of test clones 0] by (cases "scan_clones test clones 0") auto
  from scan_clones_Some [OF r] a have "r = j"
    by (metis le0 linorder_neqE_nat)
  with r show ?thesis by simp
qed



section \<open>Properties of the hash clone slot pool\<close>

lemma reserve_hash_clone_existing:
  assumes "scan_clones (\<lambda>c. partition_id c = pid \<and> source_operation c = src) clones 0 = Some i"
  shows "reserve_hash_clone pid src clones =
           (PSA_SUCCESS, i, clones[i := (clones ! i)\<lparr>ref_count := ref_count (clones ! i) + 1\<rparr>])"
  using assms by (simp add: reserve_hash_clone_def)

lemma reserve_hash_clone_claim:
  assumes "\<forall>c \<in> set clones. \<not> is_clone_of pid src c"
    and "scan_clones (\<lambda>c. partition_id c = 0 \<and> source_operation c = NULL) clones 0 = Some i"
  shows "reserve_hash_clone pid src clones =
           (PSA_SUCCESS, i,
            clones[i := (clones ! i)\<lparr>partition_id := pid, source_operation := src,
                                     ref_count := ref_count (clones ! i) + 1\<rparr>])"
proof -
  have "scan_clones (\<lambda>c. partition_id c = pid \<and> source_operation c = src) clones 0 = None"
    using assms(1) by (simp add: scan_clones_None_set is_clone_of_def)
  then show ?thesis using assms(2) by (simp add: reserve_hash_clone_def)
qed

lemma reserve_hash_clone_full:
  assumes "\<forall>c \<in> set clones. \<not> is_clone_of pid src c"
    and "\<forall>c \<in> set clones. \<not> is_free_clone c"
  shows "reserve_hash_clone pid src clones = (PSA_ERROR_BAD_STATE, length clones, clones)"
proof -
  have "scan_clones (\<lambda>c. partition_id c = pid \<and> source_operation c = src) clones 0 = None"
    using assms(1) by (simp add: scan_clones_None_set is_clone_of_def)
  moreover have "scan_clones (\<lambda>c. partition_id c = 0 \<and> source_operation c = NULL) clones 0 = None"
    using assms(2) by (simp add: scan_clones_None_set is_free_clone_def)
  ultimately show ?thesis by (simp add: reserve_hash_clone_def)
qed

lemma reserve_twice:
  assumes inv: "\<forall>c \<in> set clones. clone_inv c"
    and fresh: "\<forall>c \<in> set clones. \<not> is_clone_of pid src c"
    and free: "\<exists>c \<in> set clones. ref_count c = 0"
    and src: "src \<noteq> NULL"
  shows "\<exists>i clones1 clones2.
           reserve_hash_clone pid src clones = (PSA_SUCCESS, i, clones1) \<and>
           reserve_hash_clone pid src clones1 = (PSA_SUCCESS, i, clones2) \<and>
           i < length clones \<and>
           clones2 ! i = \<lparr>partition_id = pid, source_operation = src, ref_count = 2\<rparr> \<and>
           (\<forall>k. k \<noteq> i \<longrightarrow> clones2 ! k = clones ! k)"
proof -
  let ?free = "\<lambda>c. partition_id c = 0 \<and> source_operation c = NULL"
  let ?mine = "\<lambda>c. partition_id c = pid \<and> source_operation c = src"
  from free inv have "\<exists>c \<in> set clones. ?free c"
    by (auto simp: clone_inv_def)
  then obtain i where i: "scan_clones ?free clones 0 = Some i"
    using scan_clones_None_set [of ?free clones] by (cases "scan_clones ?free clones 0") auto
  note si = scan_clones_Some [OF i]
  then have il: "i < length clones" and fi: "?free (clones ! i)" by simp_all
  have "clone_inv (clones ! i)" using inv il by simp
  with fi have r0: "ref_count (clones ! i) = 0" by (simp add: clone_inv_def)
  define clones1 where
    "clones1 = clones[i := (clones ! i)\<lparr>partition_id := pid, source_operation := src,
                                        ref_count := ref_count (clones ! i) + 1\<rparr>]"
  have first: "reserve_hash_clone pid src clones = (PSA_SUCCESS, i, clones1)"
    unfolding clones1_def by (rule reserve_hash_clone_claim [OF fresh i])
  have c1i: "clones1 ! i = \<lparr>partition_id = pid, source_operation = src, ref_count = 1\<rparr>"
    using il r0 by (simp add: clones1_def)
  have other: "\<And>k. k \<noteq> i \<Longrightarrow> clones1 ! k = clones ! k"
    by (simp add: clones1_def)
  have nomatch: "\<forall>k < i. \<not> ?mine (clones1 ! k)"
  proof (intro allI impI)
    fix k assume "k < i"
    then have "clones1 ! k = clones ! k" "clones ! k \<in> set clones"
      using other il by simp_all
    then show "\<not> ?mine (clones1 ! k)" using fresh by (auto simp: is_clone_of_def)
  qed
  have "scan_clones ?mine clones1 0 = Some i"
    by (rule scan_clones_first) (use il c1i nomatch in \<open>simp_all add: clones1_def\<close>)
  from reserve_hash_clone_existing [OF this]
  have second: "reserve_hash_clone pid src clones1 =
      (PSA_SUCCESS, i, clones1[i := (clones1 ! i)\<lparr>ref_count := ref_count (clones1 ! i) + 1\<rparr>])" .
  define clones2 where
    "clones2 = clones1[i := (clones1 ! i)\<lparr>ref_count := ref_count (clones1 ! i) + 1\<rparr>]"
  have il1: "i < length clones1" using il by (simp add: clones1_def)
  have c2i: "clones2 ! i = \<lparr>partition_id = pid, source_operation = src, ref_count = 2\<rparr>"
    using il1 c1i by (simp add: clones2_def)
  have other2: "\<forall>k. k \<noteq> i \<longrightarrow> clones2 ! k = clones ! k"
    using other by (simp add: clones2_def)
  have "reserve_hash_clone pid src clones = (PSA_SUCCESS, i, clones1) \<and>
        reserve_hash_clone pid src clones1 = (PSA_SUCCESS, i, clones2) \<and>
        i < length clones \<and>
        clones2 ! i = \<lparr>partition_id = pid, source_operation = src, ref_count = 2\<rparr> \<and>
        (\<forall>k. k \<noteq> i \<longrightarrow> clones2 ! k = clones ! k)"
    using first second il c2i other2 unfolding clones2_def [symmetric] by blast
  then show ?thesis by blast
qed

text \<open>
  Claim C4. In a pool whose slots satisfy the slot invariant and that holds no slot for
  the pair (caller, source), with a non-null source: if a slot is free (reference count
  0), reserving the pair twice succeeds both times with the same index and leaves that
  slot with reference count 2, resolving it (\<^verbatim>\<open>get_hash_clone\<close>, then
  \<^verbatim>\<open>release_hash_clone\<close>) gives count 1 with caller and source still in the slot; if
  all slots are live (reference count not 0), the reservation fails with
  \<^verbatim>\<open>PSA_ERROR_BAD_STATE\<close> and the pool is the one before the call.
\<close>

theorem clone_pool_reserve_twice_resolve_exhaust:
  assumes "\<forall>c \<in> set clones. clone_inv c"
    and "\<forall>c \<in> set clones. \<not> is_clone_of pid src c"
    and "src \<noteq> NULL"
  shows "((\<exists>c \<in> set clones. ref_count c = 0) \<longrightarrow>
            (\<exists>i clones1 clones2.
               reserve_hash_clone pid src clones = (PSA_SUCCESS, i, clones1) \<and>
               reserve_hash_clone pid src clones1 = (PSA_SUCCESS, i, clones2) \<and>
               i < length clones \<and> ref_count (clones2 ! i) = 2 \<and>
               get_hash_clone i pid clones2 = (PSA_SUCCESS, Some i) \<and>
               release_hash_clone (clones2 ! i) =
                 \<lparr>partition_id = pid, source_operation = src, ref_count = 1\<rparr>)) \<and>
         ((\<forall>c \<in> set clones. ref_count c \<noteq> 0) \<longrightarrow>
            reserve_hash_clone pid src clones = (PSA_ERROR_BAD_STATE, length clones, clones))"
proof (intro conjI impI)
  assume "\<exists>c \<in> set clones. ref_count c = 0"
  from reserve_twice [OF assms(1,2) this assms(3)]
  obtain i clones1 clones2 where r:
    "reserve_hash_clone pid src clones = (PSA_SUCCESS, i, clones1)"
    "reserve_hash_clone pid src clones1 = (PSA_SUCCESS, i, clones2)"
    "i < length clones"
    "clones2 ! i = \<lparr>partition_id = pid, source_operation = src, ref_count = 2\<rparr>"
    by blast
  have len: "length clones2 = length clones"
    using r(1,2) by (auto simp: reserve_hash_clone_def split: option.splits)
  have "get_hash_clone i pid clones2 = (PSA_SUCCESS, Some i)"
    using r(3,4) len assms(3) by (simp add: get_hash_clone_def)
  moreover have "release_hash_clone (clones2 ! i) =
      \<lparr>partition_id = pid, source_operation = src, ref_count = 1\<rparr>"
    using r(4) by (simp add: release_hash_clone_def)
  ultimately show "\<exists>i clones1 clones2.
       reserve_hash_clone pid src clones = (PSA_SUCCESS, i, clones1) \<and>
       reserve_hash_clone pid src clones1 = (PSA_SUCCESS, i, clones2) \<and>
       i < length clones \<and> ref_count (clones2 ! i) = 2 \<and>
       get_hash_clone i pid clones2 = (PSA_SUCCESS, Some i) \<and>
       release_hash_clone (clones2 ! i) =
         \<lparr>partition_id = pid, source_operation = src, ref_count = 1\<rparr>"
    using r by (intro exI [of _ i] exI [of _ clones1] exI [of _ clones2]) simp
next
  assume live: "\<forall>c \<in> set clones. ref_count c \<noteq> 0"
  have "\<forall>c \<in> set clones. \<not> is_free_clone c"
    using live assms(1) by (auto simp: clone_inv_def is_free_clone_def)
  then show "reserve_hash_clone pid src clones = (PSA_ERROR_BAD_STATE, length clones, clones)"
    by (rule reserve_hash_clone_full [OF assms(2)])
qed



theorem clone_pool_reserve_twice_resolve_exhaust_witness:
  "(\<exists>i clones1 clones2.
      reserve_hash_clone 7 100 [zeroed_clone, zeroed_clone] = (PSA_SUCCESS, i, clones1) \<and>
      reserve_hash_clone 7 100 clones1 = (PSA_SUCCESS, i, clones2) \<and>
      i < length [zeroed_clone, zeroed_clone] \<and> ref_count (clones2 ! i) = 2 \<and>
      get_hash_clone i 7 clones2 = (PSA_SUCCESS, Some i) \<and>
      release_hash_clone (clones2 ! i) =
        \<lparr>partition_id = 7, source_operation = 100, ref_count = 1\<rparr>) \<and>
   reserve_hash_clone 9 300
     [\<lparr>partition_id = 7, source_operation = 100, ref_count = 2\<rparr>,
      \<lparr>partition_id = 8, source_operation = 200, ref_count = 1\<rparr>] =
     (PSA_ERROR_BAD_STATE,
      length [\<lparr>partition_id = 7, source_operation = 100, ref_count = 2\<rparr>,
              \<lparr>partition_id = 8, source_operation = 200, ref_count = 1\<rparr>],
      [\<lparr>partition_id = 7, source_operation = 100, ref_count = 2\<rparr>,
       \<lparr>partition_id = 8, source_operation = 200, ref_count = 1\<rparr>])"
  using clone_pool_reserve_twice_resolve_exhaust
          [of "[zeroed_clone, zeroed_clone]" 7 100]
        clone_pool_reserve_twice_resolve_exhaust
          [of "[\<lparr>partition_id = 7, source_operation = 100, ref_count = 2\<rparr>,
                \<lparr>partition_id = 8, source_operation = 200, ref_count = 1\<rparr>]" 9 300]
  by (simp add: clone_inv_def is_clone_of_def zeroed_clone_def NULL_def)

subsection \<open>The slot invariant\<close>

lemma uint8_succ_nonzero:
  fixes x :: uint8_t
  assumes "x \<noteq> 255"
  shows "x + 1 \<noteq> 0"
proof
  assume "x + 1 = 0"
  then have "x = - 1" by (simp add: eq_neg_iff_add_eq_0)
  then have "x = 255" by simp
  with assms show False by simp
qed

lemma clone_inv_release:
  assumes "clone_inv c" and "source_operation c \<noteq> NULL"
  shows "clone_inv (release_hash_clone c)"
    and "ref_count (release_hash_clone c) = 0 \<Longrightarrow> release_hash_clone c = zeroed_clone"
    and "ref_count (release_hash_clone c) \<noteq> 0 \<Longrightarrow>
           release_hash_clone c = c\<lparr>ref_count := ref_count c - 1\<rparr>"
  using assms by (auto simp: clone_inv_def release_hash_clone_def zeroed_clone_def Let_def)

lemma clone_inv_destroy:
  assumes "\<forall>c \<in> set clones. clone_inv c"
  shows "\<forall>c \<in> set (destroy_hash_clone src clones). clone_inv c"
proof (cases "scan_clones (\<lambda>c. source_operation c = src) clones 0")
  case None
  then show ?thesis using assms by (simp add: destroy_hash_clone_def)
next
  case (Some i)
  have "clone_inv ((clones ! i)\<lparr>partition_id := 0, source_operation := NULL, ref_count := 0\<rparr>)"
    by (simp add: clone_inv_def)
  then show ?thesis
    using assms Some by (auto simp: destroy_hash_clone_def dest!: set_update_subset_insert [THEN subsetD])
qed

lemma clone_inv_reserve:
  assumes inv: "\<forall>c \<in> set clones. clone_inv c"
    and ids: "pid \<noteq> 0" "src \<noteq> NULL"
    and room: "\<forall>c \<in> set clones. is_clone_of pid src c \<longrightarrow> ref_count c \<noteq> 255"
  shows "\<forall>c \<in> set (snd (snd (reserve_hash_clone pid src clones))). clone_inv c"
proof (cases "scan_clones (\<lambda>c. partition_id c = pid \<and> source_operation c = src) clones 0")
  case (Some i)
  note si = scan_clones_Some [OF Some]
  then have mem: "clones ! i \<in> set clones" by simp
  with room si have "ref_count (clones ! i) \<noteq> 255" by (simp add: is_clone_of_def)
  then have "ref_count (clones ! i) + 1 \<noteq> 0"
    by (rule uint8_succ_nonzero)
  then have "clone_inv ((clones ! i)\<lparr>ref_count := ref_count (clones ! i) + 1\<rparr>)"
    using si ids by (simp add: clone_inv_def)
  then show ?thesis
    using inv Some
    by (auto simp: reserve_hash_clone_def dest!: set_update_subset_insert [THEN subsetD])
next
  case None
  show ?thesis
  proof (cases "scan_clones (\<lambda>c. partition_id c = 0 \<and> source_operation c = NULL) clones 0")
    case n2: None
    with None inv show ?thesis by (simp add: reserve_hash_clone_def)
  next
    case (Some i)
    note si = scan_clones_Some [OF Some]
    then have "clone_inv (clones ! i)" using inv by simp
    with si have "ref_count (clones ! i) = 0" by (simp add: clone_inv_def)
    then have "clone_inv ((clones ! i)\<lparr>partition_id := pid, source_operation := src,
                                      ref_count := ref_count (clones ! i) + 1\<rparr>)"
      using ids by (simp add: clone_inv_def)
    then show ?thesis
      using inv None Some
      by (auto simp: reserve_hash_clone_def dest!: set_update_subset_insert [THEN subsetD])
  qed
qed

text \<open>
  Claim C9, as stated, fails: \<^verbatim>\<open>ref_count\<close> is a \<^verbatim>\<open>uint8_t\<close> and
  \<^verbatim>\<open>reserve_hash_clone\<close> increments it without a bound. In a pool that satisfies the
  invariant, a reservation with a non-zero caller and a non-null source for a pair whose
  slot has count 255 wraps the count to 0 while caller and source stay in the slot.
\<close>

theorem clone_inv_reserve_wraps_counterexample:
  "clone_inv \<lparr>partition_id = 1, source_operation = 5, ref_count = 255\<rparr> \<and>
   clone_inv zeroed_clone \<and> (1 :: int32_t) \<noteq> 0 \<and> (5 :: ptr) \<noteq> NULL \<and>
   reserve_hash_clone 1 5
     [\<lparr>partition_id = 1, source_operation = 5, ref_count = 255\<rparr>, zeroed_clone] =
     (PSA_SUCCESS, 0,
      [\<lparr>partition_id = 1, source_operation = 5, ref_count = 0\<rparr>, zeroed_clone]) \<and>
   \<not> clone_inv \<lparr>partition_id = 1, source_operation = 5, ref_count = 0\<rparr>"
  by (simp add: clone_inv_def zeroed_clone_def NULL_def reserve_hash_clone_def
        scan_clones.simps)

text \<open>
  Claim C9, amended. On a pool whose slots satisfy the invariant: \<^verbatim>\<open>reserve_hash_clone\<close>
  with a non-zero caller and a non-null source keeps the invariant provided no slot of
  that pair has reference count 255; releasing a slot that \<^verbatim>\<open>get_hash_clone\<close> accepted
  keeps it, and a slot released to count 0 is the zeroed slot; \<^verbatim>\<open>destroy_hash_clone\<close>
  keeps it, and the slot it resets is the zeroed slot; the zeroed slot is the one that
  the free-slot search of \<^verbatim>\<open>reserve_hash_clone\<close> matches.
\<close>

theorem clone_inv_preserved_below_overflow:
  assumes "\<forall>c \<in> set clones. clone_inv c"
  shows "(pid \<noteq> 0 \<and> src \<noteq> NULL \<and>
          (\<forall>c \<in> set clones. is_clone_of pid src c \<longrightarrow> ref_count c \<noteq> 255) \<longrightarrow>
            (\<forall>c \<in> set (snd (snd (reserve_hash_clone pid src clones))). clone_inv c)) \<and>
         (\<forall>i. get_hash_clone index pid clones = (PSA_SUCCESS, Some i) \<longrightarrow>
            (\<forall>c \<in> set (clones[i := release_hash_clone (clones ! i)]). clone_inv c) \<and>
            (ref_count (release_hash_clone (clones ! i)) = 0 \<longrightarrow>
               release_hash_clone (clones ! i) = zeroed_clone)) \<and>
         (\<forall>c \<in> set (destroy_hash_clone src clones). clone_inv c) \<and>
         (\<forall>i. scan_clones (\<lambda>c. source_operation c = src) clones 0 = Some i \<longrightarrow>
            destroy_hash_clone src clones ! i = zeroed_clone) \<and>
         scan_clones (\<lambda>c. partition_id c = 0 \<and> source_operation c = NULL) [zeroed_clone] 0
           = Some 0"
proof (intro conjI impI allI)
  assume "pid \<noteq> 0 \<and> src \<noteq> NULL \<and>
          (\<forall>c \<in> set clones. is_clone_of pid src c \<longrightarrow> ref_count c \<noteq> 255)"
  then show "\<forall>c \<in> set (snd (snd (reserve_hash_clone pid src clones))). clone_inv c"
    using clone_inv_reserve [OF assms] by blast
next
  fix i
  assume g: "get_hash_clone index pid clones = (PSA_SUCCESS, Some i)"
  then have i: "i < length clones" "source_operation (clones ! i) \<noteq> NULL"
    by (auto simp: get_hash_clone_def split: if_splits)
  then have ci: "clone_inv (clones ! i)" using assms by simp
  from clone_inv_release(1) [OF ci i(2)]
  show "\<forall>c \<in> set (clones[i := release_hash_clone (clones ! i)]). clone_inv c"
    using assms by (auto dest!: set_update_subset_insert [THEN subsetD])
  show "release_hash_clone (clones ! i) = zeroed_clone"
    if "ref_count (release_hash_clone (clones ! i)) = 0"
    using clone_inv_release(2) [OF ci i(2) that] .
next
  show "\<forall>c \<in> set (destroy_hash_clone src clones). clone_inv c"
    by (rule clone_inv_destroy [OF assms])
next
  fix i
  assume s: "scan_clones (\<lambda>c. source_operation c = src) clones 0 = Some i"
  from scan_clones_Some [OF s] have "i < length clones" by simp
  then show "destroy_hash_clone src clones ! i = zeroed_clone"
    using s by (simp add: destroy_hash_clone_def zeroed_clone_def)
next
  show "scan_clones (\<lambda>c. partition_id c = 0 \<and> source_operation c = NULL) [zeroed_clone] 0
          = Some 0"
    by (simp add: scan_clones.simps zeroed_clone_def)
qed

theorem clone_inv_preserved_below_overflow_witness:
  "list_all clone_inv (snd (snd (reserve_hash_clone 1 5
       [\<lparr>partition_id = 1, source_operation = 5, ref_count = 254\<rparr>, zeroed_clone]))) \<and>
   get_hash_clone 0 1
       [\<lparr>partition_id = 1, source_operation = 5, ref_count = 254\<rparr>, zeroed_clone] =
     (PSA_SUCCESS, Some 0) \<and>
   list_all clone_inv
     ([\<lparr>partition_id = 1, source_operation = 5, ref_count = 254\<rparr>, zeroed_clone]
       [0 := release_hash_clone
          ([\<lparr>partition_id = 1, source_operation = 5, ref_count = 254\<rparr>, zeroed_clone] ! 0)]) \<and>
   list_all clone_inv (destroy_hash_clone 5
       [\<lparr>partition_id = 1, source_operation = 5, ref_count = 254\<rparr>, zeroed_clone])"
proof -
  let ?pool = "[\<lparr>partition_id = 1, source_operation = 5, ref_count = 254\<rparr>, zeroed_clone]"
  have inv: "\<forall>c \<in> set ?pool. clone_inv c"
    by (simp add: clone_inv_def zeroed_clone_def NULL_def)
  have get: "get_hash_clone 0 1 ?pool = (PSA_SUCCESS, Some 0)"
    by (simp add: get_hash_clone_def NULL_def)
  have pre: "(1 :: int32_t) \<noteq> 0 \<and> (5 :: ptr) \<noteq> NULL \<and>
             (\<forall>c \<in> set ?pool. is_clone_of 1 5 c \<longrightarrow> ref_count c \<noteq> 255)"
    by (simp add: is_clone_of_def zeroed_clone_def NULL_def)
  from clone_inv_preserved_below_overflow [OF inv, of 1 5 0] pre get
  show ?thesis unfolding list_all_iff by blast
qed

section \<open>Basic facts about runs and traces\<close>

lemmas prim_defs =
  and_then_def emit_def call_engine_def psa_read_def psa_write_def psa_reply_def
  psa_set_rhandle_def psa_get_def psa_wait_def read_message_param_def
  mbedtls_calloc_def mbedtls_free_def
  psa_crypto_access_control_init_def psa_crypto_access_control_destroy_def
  psa_crypto_access_control_register_handle_def
  psa_crypto_access_control_unregister_handle_def
  psa_crypto_access_control_is_handle_permitted_def
  memset_hash_clones_def destroy_hash_clone_global_def

lemma returned_simps [simp]:
  "returned (Done x w) = Some x" "returned (Panic w) = None" "returned (Undefined w) = None"
  by (simp_all add: returned_def)

lemma final_simps [simp]:
  "final (Done x w) = w" "final (Panic w) = w" "final (Undefined w) = w"
  by (simp_all add: final_def)

lemma engine_calls_append [simp]: "engine_calls (xs @ ys) = engine_calls xs @ engine_calls ys"
  by (induction xs rule: engine_calls.induct) simp_all

lemma replies_append [simp]: "replies (xs @ ys) = replies xs @ replies ys"
  by (induction xs rule: replies.induct) simp_all

lemma writes_append [simp]: "writes (xs @ ys) = writes xs @ writes ys"
  by (induction xs rule: writes.induct) simp_all

lemma frees_append [simp]: "frees (xs @ ys) = frees xs @ frees ys"
  by (induction xs rule: frees.induct) simp_all

lemma and_then_simps [simp]:
  "and_then (Done x w) f = f x w" "and_then (Panic w) f = Panic w"
  "and_then (Undefined w) f = Undefined w"
  by (simp_all add: and_then_def)

lemma dispatch_skeleton_append [simp]:
  "dispatch_skeleton (xs @ ys) = dispatch_skeleton xs @ dispatch_skeleton ys"
  by (induction xs rule: dispatch_skeleton.induct) simp_all

lemmas step_defs =
  emit_def call_engine_def psa_read_def psa_write_def psa_reply_def
  psa_set_rhandle_def read_message_param_def
  mbedtls_calloc_def mbedtls_free_def
  psa_crypto_access_control_init_def psa_crypto_access_control_destroy_def
  psa_crypto_access_control_register_handle_def
  psa_crypto_access_control_unregister_handle_def
  memset_hash_clones_def destroy_hash_clone_global_def

section \<open>The crypto lifecycle reference counter\<close>

text \<open>
  Claim C5, as stated, fails at both ends. A free request at counter 0 leaves the counter
  at 0 and still tears down the registry and the engine, and an init request at
  counter 1 still calls the engine's \<^verbatim>\<open>psa_crypto_init\<close>.
\<close>

theorem crypto_lifecycle_only_on_transitions_counterexample:
  "psa_spm_init_refence_counter world0 = 0 \<and>
   crypto_free_on_call env_ok (msg_of PSA_IPC_CALL 1 NULL [] [])
       (in_vec_of (PSA_FUNC_OTHER 0) 0) world0 =
     Done PSA_SUCCESS
       (world0\<lparr>trace := [AccessDestroy, Engine (System mbedtls_psa_crypto_free)]\<rparr>) \<and>
   psa_spm_init_refence_counter (world0\<lparr>psa_spm_init_refence_counter := 1\<rparr>) = 1 \<and>
   crypto_init_on_call env_ok (msg_of PSA_IPC_CALL 1 NULL [] []) (in_vec_of (PSA_FUNC_OTHER 0) 0)
       (world0\<lparr>psa_spm_init_refence_counter := 1\<rparr>) =
     Done PSA_SUCCESS
       (world0\<lparr>psa_spm_init_refence_counter := 2,
               trace := [Engine (System psa_crypto_init)]\<rparr>)"
  by (simp add: crypto_free_on_call_def crypto_init_on_call_def prim_defs env_ok_def
        world0_def engine_success_def MAX_CONCURRENT_HASH_CLONES_def)

text \<open>
  The counter read as a signed integer: an increment adds one below \<open>2^31 - 1\<close> and
  wraps to \<open>- 2^31\<close> there; a decrement of a positive counter subtracts one.
\<close>

lemma sint_succ_c_int:
  "sint (x + 1 :: c_int) = (if sint x = 2147483647 then - 2147483648 else sint x + 1)"
proof -
  have b: "- 2147483648 \<le> sint x" "sint x \<le> 2147483647"
    using sint_ge [of x] sint_lt [of x] by simp_all
  show ?thesis
  proof (cases "sint x = 2147483647")
    case True
    then have "word_of_int (sint x) = (word_of_int 2147483647 :: c_int)" by simp
    then have "x = 2147483647" by simp
    then show ?thesis by simp
  next
    case False
    with b have "sint x + 1 < 2147483648" "- 2147483648 \<le> sint x + 1" by simp_all
    then have "signed_take_bit 31 (sint x + 1) = sint x + 1"
      by (simp add: signed_take_bit_int_eq_self_iff)
    then show ?thesis using False by (simp add: sint_word_ariths)
  qed
qed

lemma sint_pred_c_int:
  assumes "0 <s (x :: c_int)"
  shows "sint (x - 1) = sint x - 1"
proof -
  from assms have p: "0 < sint x" by (simp add: word_sless_alt)
  have "sint x \<le> 2147483647" using sint_lt [of x] by simp
  with p have "signed_take_bit 31 (sint x - 1) = sint x - 1"
    by (simp add: signed_take_bit_int_eq_self_iff)
  then show ?thesis by (simp add: sint_word_ariths)
qed

text \<open>
  Claim C5, amended. The init handler calls the engine's \<^verbatim>\<open>psa_crypto_init\<close> on
  every request and returns its status; it increments the counter exactly when the
  engine reports success, by one below \<open>2^31 - 1\<close> and from \<open>2^31 - 1\<close> to \<open>- 2^31\<close>, and
  resets the clone pool and initialises the registry exactly when that increment takes
  the counter from 0 to 1. The free handler returns success, decrements a positive
  counter, and resets the pool, destroys the registry and calls
  \<^verbatim>\<open>mbedtls_psa_crypto_free\<close> exactly when the counter was 1 or 0 before the request; at
  any other counter value it changes nothing but the counter.
\<close>

theorem crypto_lifecycle_counter_transitions:
  "returned (crypto_init_on_call env msg iv w) =
     Some (res_status (engine env (trace w) (System psa_crypto_init))) \<and>
   (let w' = final (crypto_init_on_call env msg iv w);
        n = sint (psa_spm_init_refence_counter w);
        ok = (res_status (engine env (trace w) (System psa_crypto_init)) = PSA_SUCCESS);
        first = (ok \<and> n = 0)
    in trace w' = trace w @ [Engine (System psa_crypto_init)] @
                    (if first then [AccessInit] else []) \<and>
       sint (psa_spm_init_refence_counter w') =
         (if ok then (if n = 2147483647 then - 2147483648 else n + 1) else n) \<and>
       psa_spm_hash_clones w' =
         (if first then map (\<lambda>c. zeroed_clone) (psa_spm_hash_clones w)
          else psa_spm_hash_clones w) \<and>
       access_control w' = (if first then Map.empty else access_control w)) \<and>
   returned (crypto_free_on_call env msg iv w) = Some PSA_SUCCESS \<and>
   (let w' = final (crypto_free_on_call env msg iv w);
        n = sint (psa_spm_init_refence_counter w);
        last = (n = 1 \<or> n = 0)
    in trace w' = trace w @
                    (if last then [AccessDestroy, Engine (System mbedtls_psa_crypto_free)]
                     else []) \<and>
       sint (psa_spm_init_refence_counter w') = (if 0 < n then n - 1 else n) \<and>
       psa_spm_hash_clones w' =
         (if last then map (\<lambda>c. zeroed_clone) (psa_spm_hash_clones w)
          else psa_spm_hash_clones w) \<and>
       access_control w' = (if last then Map.empty else access_control w))"
proof -
  let ?x = "psa_spm_init_refence_counter w"
  have zero: "sint ?x = 0 \<longleftrightarrow> ?x = 0" by (simp add: signed_eq_0_iff)
  have one: "sint ?x = 1 \<longleftrightarrow> ?x = 1"
  proof
    assume "sint ?x = 1"
    then have "word_of_int (sint ?x) = (word_of_int 1 :: c_int)" by simp
    then show "?x = 1" by simp
  next
    assume "?x = 1"
    then show "sint ?x = 1" by simp
  qed
  have succ: "?x + 1 = 1 \<longleftrightarrow> ?x = 0" by simp
  have pos: "0 <s ?x \<longleftrightarrow> 0 < sint ?x" by (simp add: word_sless_alt)
  have pred: "0 <s ?x \<Longrightarrow> (?x - 1 = 0 \<longleftrightarrow> ?x = 1)" by simp
  have one_pos: "?x = 1 \<Longrightarrow> 0 <s ?x" by (simp add: word_sless_alt)
  have zero_npos: "?x = 0 \<Longrightarrow> \<not> 0 <s ?x" by (simp add: word_sless_alt)
  show ?thesis
    using one_pos zero_npos
    by (auto simp: crypto_init_on_call_def crypto_free_on_call_def prim_defs Let_def
          zero one sint_succ_c_int sint_pred_c_int pos [symmetric])
qed

theorem crypto_lifecycle_counter_transitions_witness:
  "returned (crypto_init_on_call env_ok (msg_of PSA_IPC_CALL 1 NULL [] [])
               (in_vec_of (PSA_FUNC_OTHER 0) 0) world0) = Some PSA_SUCCESS \<and>
   trace (final (crypto_init_on_call env_ok (msg_of PSA_IPC_CALL 1 NULL [] [])
               (in_vec_of (PSA_FUNC_OTHER 0) 0) world0)) =
     [Engine (System psa_crypto_init), AccessInit] \<and>
   sint (psa_spm_init_refence_counter (final (crypto_init_on_call env_ok
       (msg_of PSA_IPC_CALL 1 NULL [] []) (in_vec_of (PSA_FUNC_OTHER 0) 0) world0))) = 1 \<and>
   trace (final (crypto_free_on_call env_ok (msg_of PSA_IPC_CALL 1 NULL [] [])
               (in_vec_of (PSA_FUNC_OTHER 0) 0)
               (world0\<lparr>psa_spm_init_refence_counter := 2\<rparr>))) = [] \<and>
   sint (psa_spm_init_refence_counter (final (crypto_free_on_call env_ok
       (msg_of PSA_IPC_CALL 1 NULL [] []) (in_vec_of (PSA_FUNC_OTHER 0) 0)
       (world0\<lparr>psa_spm_init_refence_counter := 2\<rparr>)))) = 1 \<and>
   trace (final (crypto_init_on_call env_ok (msg_of PSA_IPC_CALL 1 NULL [] [])
               (in_vec_of (PSA_FUNC_OTHER 0) 0)
               (world0\<lparr>psa_spm_init_refence_counter := 2147483647\<rparr>))) =
     [Engine (System psa_crypto_init)] \<and>
   sint (psa_spm_init_refence_counter (final (crypto_init_on_call env_ok
       (msg_of PSA_IPC_CALL 1 NULL [] []) (in_vec_of (PSA_FUNC_OTHER 0) 0)
       (world0\<lparr>psa_spm_init_refence_counter := 2147483647\<rparr>)))) = - 2147483648"
  using crypto_lifecycle_counter_transitions
          [of env_ok "msg_of PSA_IPC_CALL 1 NULL [] []" "in_vec_of (PSA_FUNC_OTHER 0) 0" world0]
        crypto_lifecycle_counter_transitions
          [of env_ok "msg_of PSA_IPC_CALL 1 NULL [] []" "in_vec_of (PSA_FUNC_OTHER 0) 0"
              "world0\<lparr>psa_spm_init_refence_counter := 2\<rparr>"]
        crypto_lifecycle_counter_transitions
          [of env_ok "msg_of PSA_IPC_CALL 1 NULL [] []" "in_vec_of (PSA_FUNC_OTHER 0) 0"
              "world0\<lparr>psa_spm_init_refence_counter := 2147483647\<rparr>"]
  by (simp add: env_ok_def world0_def engine_success_def Let_def)

section \<open>Access control in the handlers\<close>

text \<open>
  Claim C1. Take a Call for one of the sub-operations that take a key handle from the
  caller, with a header whose declared length is at most the size of the header
  structure of the service (and is that size, for key management and key derivation,
  which check it), delivered in full. If the registry does not hold the handle of the
  header for the calling partition, the message is answered with exactly one more reply,
  of status \<^verbatim>\<open>PSA_ERROR_INVALID_HANDLE\<close>, no engine call is made and the registry is
  unchanged.
\<close>

theorem unregistered_handle_rejected:
  assumes "msg_type msg = PSA_IPC_CALL"
    and "request_func s iv = Some f"
    and "(s, f) \<in> set handle_taking"
    and "\<not> psa_crypto_access_control_is_handle_permitted
             (request_handle s iv) (client_id msg) w"
    and "channel_read env (trace w) (msg_handle msg) 0 (in_size msg 0) = in_size msg 0"
    and "\<forall>n. header_size env s = Some n \<longrightarrow> in_size msg 0 \<le> n"
    and "\<forall>n. checked_header_size env s = Some n \<longrightarrow> in_size msg 0 = n"
  shows "returned (serve env s msg iv w) = Some () \<and>
         replies (trace (final (serve env s msg iv w))) =
           replies (trace w) @ [(msg_handle msg, PSA_ERROR_INVALID_HANDLE)] \<and>
         engine_calls (trace (final (serve env s msg iv w))) = engine_calls (trace w) \<and>
         access_control (final (serve env s msg iv w)) = access_control w"
  using assms unfolding handle_taking_def
  by (auto simp: serve_def message_handler_def psa_key_management_operation_def
        psa_crypto_generator_operations_def key_management_call_def generator_call_def
        mac_on_call_def symmetric_on_call_def asymmetric_on_call_def aead_on_call_def
        request_func_def request_handle_def header_size_def checked_header_size_def
        prim_defs Let_def)

theorem unregistered_handle_rejected_witness:
  "replies (trace (final (serve env_ok PSA_KEY_MNG (msg_of PSA_IPC_CALL 1 NULL [16] [])
                            (in_vec_of PSA_DESTROY_KEY 5) world0))) =
     [(1, PSA_ERROR_INVALID_HANDLE)] \<and>
   engine_calls (trace (final (serve env_ok PSA_KEY_MNG (msg_of PSA_IPC_CALL 1 NULL [16] [])
                            (in_vec_of PSA_DESTROY_KEY 5) world0))) = [] \<and>
   replies (trace (final (serve env_ok PSA_ASYMMETRIC (msg_of PSA_IPC_CALL 1 NULL [20, 32] [64])
                            (in_vec_of PSA_ASYMMETRIC_SIGN 5) world0))) =
     [(1, PSA_ERROR_INVALID_HANDLE)] \<and>
   engine_calls (trace (final (serve env_ok PSA_ASYMMETRIC
                            (msg_of PSA_IPC_CALL 1 NULL [20, 32] [64])
                            (in_vec_of PSA_ASYMMETRIC_SIGN 5) world0))) = []"
  using unregistered_handle_rejected
          [of "msg_of PSA_IPC_CALL 1 NULL [16] []" PSA_KEY_MNG "in_vec_of PSA_DESTROY_KEY 5"
              PSA_DESTROY_KEY world0 env_ok]
        unregistered_handle_rejected
          [of "msg_of PSA_IPC_CALL 1 NULL [20, 32] [64]" PSA_ASYMMETRIC
              "in_vec_of PSA_ASYMMETRIC_SIGN 5" PSA_ASYMMETRIC_SIGN world0 env_ok]
  by (simp add: handle_taking_def request_func_def request_handle_def
        header_size_def checked_header_size_def msg_of_def in_vec_of_def env_ok_def
        world0_def
        psa_crypto_access_control_is_handle_permitted_def)

text \<open>
  Claim C10. Under the same conditions, for \<^verbatim>\<open>PSA_GET_KEY_INFORMATION\<close> the events of
  the call are the read of the header, a write of a zero key type to output parameter 0
  when its capacity is at least \<^verbatim>\<open>sizeof(psa_key_type_t)\<close>, a write of a zero bit size
  to output parameter 1 when its capacity is at least \<^verbatim>\<open>sizeof(size_t)\<close>, and then the
  reply \<^verbatim>\<open>PSA_ERROR_INVALID_HANDLE\<close>; for every other sub-operation that takes a key
  handle, the call writes no output parameter before that reply.
\<close>

theorem get_key_information_writes_on_denial:
  assumes "msg_type msg = PSA_IPC_CALL"
    and "request_func s iv = Some f"
    and "(s, f) \<in> set handle_taking"
    and "\<not> psa_crypto_access_control_is_handle_permitted
             (request_handle s iv) (client_id msg) w"
    and "channel_read env (trace w) (msg_handle msg) 0 (in_size msg 0) = in_size msg 0"
    and "\<forall>n. header_size env s = Some n \<longrightarrow> in_size msg 0 \<le> n"
    and "\<forall>n. checked_header_size env s = Some n \<longrightarrow> in_size msg 0 = n"
  shows "((s, f) = (PSA_KEY_MNG, PSA_GET_KEY_INFORMATION) \<longrightarrow>
            trace (final (serve env s msg iv w)) =
              trace w @ [Read (msg_handle msg) 0 (in_size msg 0)] @
              (if out_size msg 0 \<ge> sizeof_psa_key_type_t env
               then [Write (msg_handle msg) 0 (Some 0) (sizeof_psa_key_type_t env)] else []) @
              (if out_size msg 1 \<ge> sizeof_size_t env
               then [Write (msg_handle msg) 1 (Some 0) (sizeof_size_t env)] else []) @
              [Reply (msg_handle msg) PSA_ERROR_INVALID_HANDLE]) \<and>
         ((s, f) \<noteq> (PSA_KEY_MNG, PSA_GET_KEY_INFORMATION) \<longrightarrow>
            writes (trace (final (serve env s msg iv w))) = writes (trace w) \<and>
            replies (trace (final (serve env s msg iv w))) =
              replies (trace w) @ [(msg_handle msg, PSA_ERROR_INVALID_HANDLE)])"
  using assms unfolding handle_taking_def
  by (auto simp: serve_def message_handler_def psa_key_management_operation_def
        psa_crypto_generator_operations_def key_management_call_def generator_call_def
        mac_on_call_def symmetric_on_call_def asymmetric_on_call_def aead_on_call_def
        request_func_def request_handle_def header_size_def checked_header_size_def
        prim_defs Let_def)

theorem get_key_information_writes_on_denial_witness:
  "trace (final (serve env_ok PSA_KEY_MNG (msg_of PSA_IPC_CALL 1 NULL [16] [4, 4])
                   (in_vec_of PSA_GET_KEY_INFORMATION 5) world0)) =
     [Read 1 0 16, Write 1 0 (Some 0) 4, Write 1 1 (Some 0) 4,
      Reply 1 PSA_ERROR_INVALID_HANDLE] \<and>
   writes (trace (final (serve env_ok PSA_KEY_MNG (msg_of PSA_IPC_CALL 1 NULL [16] [64, 4])
                   (in_vec_of PSA_EXPORT_KEY 5) world0))) = []"
  using get_key_information_writes_on_denial
          [of "msg_of PSA_IPC_CALL 1 NULL [16] [4, 4]" PSA_KEY_MNG
              "in_vec_of PSA_GET_KEY_INFORMATION 5" PSA_GET_KEY_INFORMATION world0 env_ok]
        get_key_information_writes_on_denial
          [of "msg_of PSA_IPC_CALL 1 NULL [16] [64, 4]" PSA_KEY_MNG
              "in_vec_of PSA_EXPORT_KEY 5" PSA_EXPORT_KEY world0 env_ok]
  by (simp add: handle_taking_def request_func_def request_handle_def
        header_size_def checked_header_size_def msg_of_def in_vec_of_def env_ok_def
        world0_def
        psa_crypto_access_control_is_handle_permitted_def)

text \<open>
  Claim C2. Take a key-management Call with a well-formed header that is delivered in
  full. For allocate, and for create and open when the 4-byte key identifier is
  delivered: when the engine reports success, the events of the call are the reads, the
  engine call, the registration of the new handle for the calling partition, the write
  of the handle and then the reply, and the handle is permitted for the caller
  afterwards; when the engine reports failure the registry is unchanged. For destroy and
  close of a handle that is permitted for the caller: when the engine reports success
  the handle is unregistered before the reply and is no longer in the registry; when the
  engine reports failure the registry is unchanged and the handle is still permitted.
\<close>

theorem key_handle_registration:
  assumes "msg_type msg = PSA_IPC_CALL"
    and "in_size msg 0 = sizeof_psa_key_mng_ipc_t env"
    and "channel_read env (trace w) (msg_handle msg) 0 (in_size msg 0) = in_size msg 0"
  shows
    "(key_mng_func (iv_key_mng iv) = PSA_ALLOCATE_KEY \<longrightarrow>
        (let h0 = trace w @ [Read (msg_handle msg) 0 (in_size msg 0)];
             r = engine env h0 (Key psa_allocate_key);
             w' = final (psa_key_management_operation env msg iv w)
         in if res_status r = PSA_SUCCESS
            then trace w' = h0 @ [Engine (Key psa_allocate_key),
                                  Register (res_handle r) (client_id msg),
                                  Write (msg_handle msg) 0 (Some (unat (res_handle r)))
                                    (sizeof_psa_key_handle_t env),
                                  Reply (msg_handle msg) PSA_SUCCESS] \<and>
                 psa_crypto_access_control_is_handle_permitted
                   (res_handle r) (client_id msg) w'
            else trace w' = h0 @ [Engine (Key psa_allocate_key),
                                  Reply (msg_handle msg) (res_status r)] \<and>
                 access_control w' = access_control w)) \<and>
     (key_mng_func (iv_key_mng iv) \<in> {PSA_CREATE_KEY, PSA_OPEN_KEY} \<and>
      in_size msg 1 = CLIENT_PSA_KEY_ID_SIZE_IN_BYTES \<and>
      channel_read env (trace w @ [Read (msg_handle msg) 0 (in_size msg 0)]) (msg_handle msg) 1
          (in_size msg 1) = in_size msg 1 \<longrightarrow>
        (let h0 = trace w @ [Read (msg_handle msg) 0 (in_size msg 0),
                            Read (msg_handle msg) 1 (in_size msg 1)];
             c = Key ((if key_mng_func (iv_key_mng iv) = PSA_CREATE_KEY
                       then psa_create_key else psa_open_key)
                        (key_mng_lifetime (iv_key_mng iv)) (client_id msg) (iv_scalar iv 1));
             r = engine env h0 c;
             w' = final (psa_key_management_operation env msg iv w)
         in if res_status r = PSA_SUCCESS
            then trace w' = h0 @ [Engine c,
                                  Register (res_handle r) (client_id msg),
                                  Write (msg_handle msg) 0 (Some (unat (res_handle r)))
                                    (sizeof_psa_key_handle_t env),
                                  Reply (msg_handle msg) PSA_SUCCESS] \<and>
                 psa_crypto_access_control_is_handle_permitted
                   (res_handle r) (client_id msg) w'
            else trace w' = h0 @ [Engine c, Reply (msg_handle msg) (res_status r)] \<and>
                 access_control w' = access_control w)) \<and>
     (key_mng_func (iv_key_mng iv) \<in> {PSA_DESTROY_KEY, PSA_CLOSE_KEY} \<and>
      psa_crypto_access_control_is_handle_permitted
        (key_mng_handle (iv_key_mng iv)) (client_id msg) w \<longrightarrow>
        (let h0 = trace w @ [Read (msg_handle msg) 0 (in_size msg 0)];
             c = Key ((if key_mng_func (iv_key_mng iv) = PSA_DESTROY_KEY
                       then psa_destroy_key else psa_close_key)
                        (key_mng_handle (iv_key_mng iv)));
             r = engine env h0 c;
             w' = final (psa_key_management_operation env msg iv w)
         in if res_status r = PSA_SUCCESS
            then trace w' = h0 @ [Engine c, Unregister (key_mng_handle (iv_key_mng iv)),
                                  Reply (msg_handle msg) PSA_SUCCESS] \<and>
                 access_control w' =
                   (access_control w)(key_mng_handle (iv_key_mng iv) := None) \<and>
                 \<not> psa_crypto_access_control_is_handle_permitted
                      (key_mng_handle (iv_key_mng iv)) (client_id msg) w'
            else trace w' = h0 @ [Engine c, Reply (msg_handle msg) (res_status r)] \<and>
                 access_control w' = access_control w \<and>
                 psa_crypto_access_control_is_handle_permitted
                   (key_mng_handle (iv_key_mng iv)) (client_id msg) w'))"
  using assms
  by (auto simp: psa_key_management_operation_def key_management_call_def prim_defs Let_def
        sizeof_uint32_t_def CLIENT_PSA_KEY_ID_SIZE_IN_BYTES_def)

theorem key_handle_registration_witness:
  "trace (final (psa_key_management_operation env_ok (msg_of PSA_IPC_CALL 1 NULL [16] [2])
                   (in_vec_of PSA_ALLOCATE_KEY 0) world0)) =
     [Read 1 0 16, Engine (Key psa_allocate_key), Register 0 1, Write 1 0 (Some 0) 2,
      Reply 1 PSA_SUCCESS] \<and>
   psa_crypto_access_control_is_handle_permitted 0 1
     (final (psa_key_management_operation env_ok (msg_of PSA_IPC_CALL 1 NULL [16] [2])
               (in_vec_of PSA_ALLOCATE_KEY 0) world0)) \<and>
   trace (final (psa_key_management_operation env_ok (msg_of PSA_IPC_CALL 1 NULL [16, 4] [2])
                   (in_vec_of PSA_OPEN_KEY 0) world0)) =
     [Read 1 0 16, Read 1 1 4, Engine (Key (psa_open_key 0 1 0)), Register 0 1,
      Write 1 0 (Some 0) 2, Reply 1 PSA_SUCCESS] \<and>
   trace (final (psa_key_management_operation env_ok (msg_of PSA_IPC_CALL 1 NULL [16] [])
                   (in_vec_of PSA_DESTROY_KEY 5) (world0\<lparr>access_control := [5 \<mapsto> 1]\<rparr>))) =
     [Read 1 0 16, Engine (Key (psa_destroy_key 5)), Unregister 5, Reply 1 PSA_SUCCESS] \<and>
   access_control
     (final (psa_key_management_operation env_ok (msg_of PSA_IPC_CALL 1 NULL [16] [])
               (in_vec_of PSA_DESTROY_KEY 5) (world0\<lparr>access_control := [5 \<mapsto> 1]\<rparr>))) 5 = None \<and>
   psa_crypto_access_control_is_handle_permitted 5 1
     (final (psa_key_management_operation
               (env_ok\<lparr>engine := (\<lambda>h c. engine_success\<lparr>res_status := PSA_ERROR_OTHER (- 1)\<rparr>)\<rparr>)
               (msg_of PSA_IPC_CALL 1 NULL [16] [])
               (in_vec_of PSA_CLOSE_KEY 5) (world0\<lparr>access_control := [5 \<mapsto> 1]\<rparr>)))"
  using key_handle_registration
          [of "msg_of PSA_IPC_CALL 1 NULL [16] [2]" env_ok world0 "in_vec_of PSA_ALLOCATE_KEY 0"]
        key_handle_registration
          [of "msg_of PSA_IPC_CALL 1 NULL [16, 4] [2]" env_ok world0 "in_vec_of PSA_OPEN_KEY 0"]
        key_handle_registration
          [of "msg_of PSA_IPC_CALL 1 NULL [16] []" env_ok
              "world0\<lparr>access_control := [5 \<mapsto> 1]\<rparr>" "in_vec_of PSA_DESTROY_KEY 5"]
        key_handle_registration
          [of "msg_of PSA_IPC_CALL 1 NULL [16] []"
              "env_ok\<lparr>engine := (\<lambda>h c. engine_success\<lparr>res_status := PSA_ERROR_OTHER (- 1)\<rparr>)\<rparr>"
              "world0\<lparr>access_control := [5 \<mapsto> 1]\<rparr>" "in_vec_of PSA_CLOSE_KEY 5"]
  by (simp add: msg_of_def in_vec_of_def env_ok_def world0_def engine_success_def
        CLIENT_PSA_KEY_ID_SIZE_IN_BYTES_def Let_def
        psa_crypto_access_control_is_handle_permitted_def)

section \<open>Properties of the chunked transfer\<close>

subsection \<open>The chunk sizes of the specification\<close>

lemma chunk_sizes_sum: "sum_list (chunk_sizes L) = L"
proof (induction L rule: chunk_sizes.induct)
  case (1 L)
  then show ?case by (subst chunk_sizes.simps) auto
qed

lemma chunk_sizes_length:
  "length (chunk_sizes L) =
     (L + (MAX_DATA_CHUNK_SIZE_IN_BYTES - 1)) div MAX_DATA_CHUNK_SIZE_IN_BYTES"
proof (induction L rule: chunk_sizes.induct)
  case (1 L)
  show ?case
  proof (cases "L = 0")
    case True
    then show ?thesis
      by (subst chunk_sizes.simps) (simp add: MAX_DATA_CHUNK_SIZE_IN_BYTES_def)
  next
    case False
    show ?thesis
    proof (cases "L \<le> MAX_DATA_CHUNK_SIZE_IN_BYTES")
      case True
      then have "chunk_sizes L = [L]"
        using False by (simp add: chunk_sizes.simps [of L] chunk_sizes.simps [of 0] min_def)
      then show ?thesis
        using True False by (simp add: MAX_DATA_CHUNK_SIZE_IN_BYTES_def) 
    next
      case big: False
      then have m: "min L MAX_DATA_CHUNK_SIZE_IN_BYTES = MAX_DATA_CHUNK_SIZE_IN_BYTES"
        by simp
      have "length (chunk_sizes L) =
              Suc (length (chunk_sizes (L - MAX_DATA_CHUNK_SIZE_IN_BYTES)))"
        using False m by (subst chunk_sizes.simps) simp
      also have "\<dots> = Suc ((L - MAX_DATA_CHUNK_SIZE_IN_BYTES +
                      (MAX_DATA_CHUNK_SIZE_IN_BYTES - 1)) div MAX_DATA_CHUNK_SIZE_IN_BYTES)"
        using "1.IH" [OF False] m by simp
      also have "\<dots> = (L + (MAX_DATA_CHUNK_SIZE_IN_BYTES - 1)) div MAX_DATA_CHUNK_SIZE_IN_BYTES"
        using big by (simp add: MAX_DATA_CHUNK_SIZE_IN_BYTES_def)
      finally show ?thesis .
    qed
  qed
qed

lemma chunk_sizes_bounds:
  "x \<in> set (chunk_sizes L) \<Longrightarrow> 0 < x \<and> x \<le> MAX_DATA_CHUNK_SIZE_IN_BYTES"
proof (induction L rule: chunk_sizes.induct)
  case (1 L)
  show ?case
  proof (cases "L = 0")
    case True
    then show ?thesis using "1.prems" by (simp add: chunk_sizes.simps [of 0])
  next
    case False
    then show ?thesis
      using "1.prems" "1.IH" [OF False]
      by (subst (asm) chunk_sizes.simps) (auto simp: MAX_DATA_CHUNK_SIZE_IN_BYTES_def split: if_splits)
  qed
qed

lemma chunk_sizes_1000: "chunk_sizes 1000 = [400, 400, 200]"
  by (simp add: chunk_sizes.simps MAX_DATA_CHUNK_SIZE_IN_BYTES_def)

subsection \<open>The update loop\<close>

text \<open>
  When the buffer holds a chunk, the channel delivers every chunk in full and the sink
  reports success every time, the loop calls the sink once for each chunk size of the
  specification, in order, and ends with success; for length 0 it makes no call and the
  status is the one it was entered with.
\<close>

lemma read_update_loop_chunks:
  assumes reads: "\<forall>h n. channel_read env h k 1 n = n"
    and sink_ok: "\<forall>h n. res_status (engine env h (sink n)) = PSA_SUCCESS"
    and fits: "min L MAX_DATA_CHUNK_SIZE_IN_BYTES \<le> B"
  shows "returned (read_update_loop env k B sink status L w) =
           Some (if L = 0 then status else PSA_SUCCESS) \<and>
         engine_calls (trace (final (read_update_loop env k B sink status L w))) =
           engine_calls (trace w) @ map sink (chunk_sizes L) \<and>
         heap (final (read_update_loop env k B sink status L w)) = heap w \<and>
         frees (trace (final (read_update_loop env k B sink status L w))) = frees (trace w)"
  using fits
proof (induction L arbitrary: status w rule: chunk_sizes.induct)
  case (1 L)
  show ?case
  proof (cases "L = 0")
    case True
    then show ?thesis
      by (simp add: read_update_loop.simps [of _ _ _ _ _ 0] chunk_sizes.simps [of 0])
  next
    case False
    let ?n = "min L MAX_DATA_CHUNK_SIZE_IN_BYTES"
    let ?w1 = "emit (Read k 1 ?n) w"
    let ?w2 = "emit (Engine (sink ?n)) ?w1"
    have step: "read_update_loop env k B sink status L w =
                read_update_loop env k B sink PSA_SUCCESS (L - ?n) ?w2"
      using False reads sink_ok "1.prems"
      by (subst read_update_loop.simps) (auto simp: psa_read_def call_engine_def Let_def)
    have pos: "0 < ?n" using False by (simp add: MAX_DATA_CHUNK_SIZE_IN_BYTES_def)
    have cs: "chunk_sizes L = ?n # chunk_sizes (L - ?n)"
      using False by (subst chunk_sizes.simps) simp
    have "min (L - ?n) MAX_DATA_CHUNK_SIZE_IN_BYTES \<le> B"
      using "1.prems" by simp
    from "1.IH" [OF False this, of PSA_SUCCESS ?w2] False
    show ?thesis
      by (simp add: step cs emit_def)
  qed
qed


lemma hash_update_chunked:
  assumes "channel_read env (trace w) (msg_handle msg) 0 (in_size msg 0) = in_size msg 0"
    and "in_size msg 0 \<le> sizeof_psa_crypto_ipc_t env"
    and "\<forall>h n. channel_read env h (msg_handle msg) 1 n = n"
    and "\<forall>h n. res_status (engine env h (Hash (psa_hash_update (rhandle msg) n))) = PSA_SUCCESS"
    and "ipc_func (iv_crypto_ipc iv) = PSA_HASH_UPDATE"
    and "allocator env (trace w @ [Read (msg_handle msg) 0 (in_size msg 0)])
           (min (in_size msg 1) MAX_DATA_CHUNK_SIZE_IN_BYTES) \<notin> insert NULL (heap w)"
  shows "returned (hash_on_call env msg iv w) =
           Some (if in_size msg 1 = 0 then indeterminate_status env else PSA_SUCCESS) \<and>
         engine_calls (trace (final (hash_on_call env msg iv w))) =
           engine_calls (trace w) @
           map (\<lambda>n. Hash (psa_hash_update (rhandle msg) n)) (chunk_sizes (in_size msg 1))"
proof -
  let ?sink = "\<lambda>n. Hash (psa_hash_update (rhandle msg) n)"
  let ?w1 = "emit (Read (msg_handle msg) 0 (in_size msg 0)) w"
  let ?n = "min (in_size msg 1) MAX_DATA_CHUNK_SIZE_IN_BYTES"
  let ?p = "allocator env (trace ?w1) ?n"
  let ?w2 = "emit (Calloc ?n) (?w1\<lparr>heap := insert ?p (heap ?w1)\<rparr>)"
  let ?loop = "read_update_loop env (msg_handle msg) ?n ?sink (indeterminate_status env)
                 (in_size msg 1) ?w2"
  have p: "?p \<noteq> NULL" "?p \<notin> heap w" using assms(6) by (simp_all add: emit_def)
  have call: "hash_on_call env msg iv w =
      and_then ?loop (\<lambda>status w3. Done status (mbedtls_free ?p w3))"
    using assms(1,2,5) p
    by (simp add: hash_on_call_def read_message_param_def psa_read_def mbedtls_calloc_def
          and_then_def emit_def Let_def)
  note loop = read_update_loop_chunks [OF assms(3), of ?sink, OF assms(4),
      of "in_size msg 1" ?n "indeterminate_status env" ?w2, simplified]
  show ?thesis
  proof (cases ?loop)
    case (Done st w3)
    with loop show ?thesis
      by (simp add: call and_then_def mbedtls_free_def emit_def)
  next
    case (Panic w3)
    with loop show ?thesis by simp
  next
    case (Undefined w3)
    with loop show ?thesis by simp
  qed
qed

lemma mac_update_chunked:
  assumes "channel_read env (trace w) (msg_handle msg) 0 (in_size msg 0) = in_size msg 0"
    and "in_size msg 0 \<le> sizeof_psa_crypto_ipc_t env"
    and "\<forall>h n. channel_read env h (msg_handle msg) 1 n = n"
    and "\<forall>h n. res_status (engine env h (Mac (psa_mac_update (rhandle msg) n))) = PSA_SUCCESS"
    and "ipc_func (iv_crypto_ipc iv) = PSA_MAC_UPDATE"
    and "allocator env (trace w @ [Read (msg_handle msg) 0 (in_size msg 0)])
           (min (in_size msg 1) MAX_DATA_CHUNK_SIZE_IN_BYTES) \<notin> insert NULL (heap w)"
  shows "returned (mac_on_call env msg iv w) =
           Some (if in_size msg 1 = 0 then indeterminate_status env else PSA_SUCCESS) \<and>
         engine_calls (trace (final (mac_on_call env msg iv w))) =
           engine_calls (trace w) @
           map (\<lambda>n. Mac (psa_mac_update (rhandle msg) n)) (chunk_sizes (in_size msg 1))"
proof -
  let ?sink = "\<lambda>n. Mac (psa_mac_update (rhandle msg) n)"
  let ?w1 = "emit (Read (msg_handle msg) 0 (in_size msg 0)) w"
  let ?n = "min (in_size msg 1) MAX_DATA_CHUNK_SIZE_IN_BYTES"
  let ?p = "allocator env (trace ?w1) ?n"
  let ?w2 = "emit (Calloc ?n) (?w1\<lparr>heap := insert ?p (heap ?w1)\<rparr>)"
  let ?loop = "read_update_loop env (msg_handle msg) ?n ?sink (indeterminate_status env)
                 (in_size msg 1) ?w2"
  have p: "?p \<noteq> NULL" "?p \<notin> heap w" using assms(6) by (simp_all add: emit_def)
  have call: "mac_on_call env msg iv w =
      and_then ?loop (\<lambda>status w3. Done status (mbedtls_free ?p w3))"
    using assms(1,2,5) p
    by (simp add: mac_on_call_def read_message_param_def psa_read_def mbedtls_calloc_def
          and_then_def emit_def Let_def)
  note loop = read_update_loop_chunks [OF assms(3), of ?sink, OF assms(4),
      of "in_size msg 1" ?n "indeterminate_status env" ?w2, simplified]
  show ?thesis
  proof (cases ?loop)
    case (Done st w3)
    with loop show ?thesis
      by (simp add: call and_then_def mbedtls_free_def emit_def)
  next
    case (Panic w3)
    with loop show ?thesis by simp
  next
    case (Undefined w3)
    with loop show ?thesis by simp
  qed
qed

text \<open>
  Claim C3 holds for every positive length (lemmas \<open>hash_update_chunked\<close>,
  \<open>mac_update_chunked\<close>, \<open>chunk_sizes_length\<close>, \<open>chunk_sizes_sum\<close>) and fails in its
  last part. For length 0 the loop does not run and nothing assigns the local
  \<^verbatim>\<open>status\<close>, which \<^verbatim>\<open>hash_on_call\<close> and \<^verbatim>\<open>mac_on_call\<close> declare without an
  initialiser: when the header fits its structure and is delivered, and the allocation
  of 0 bytes gives a block, the update of an empty input makes no engine call and
  returns whatever the uninitialised local holds, not success.
\<close>

theorem update_of_empty_input_returns_uninitialised_status:
  assumes "channel_read env (trace w) (msg_handle msg) 0 (in_size msg 0) = in_size msg 0"
    and "in_size msg 0 \<le> sizeof_psa_crypto_ipc_t env"
    and "in_size msg 1 = 0"
    and "allocator env (trace w @ [Read (msg_handle msg) 0 (in_size msg 0)]) 0
           \<notin> insert NULL (heap w)"
  shows "(ipc_func (iv_crypto_ipc iv) = PSA_HASH_UPDATE \<longrightarrow>
            returned (hash_on_call env msg iv w) = Some (indeterminate_status env) \<and>
            engine_calls (trace (final (hash_on_call env msg iv w))) = engine_calls (trace w)) \<and>
         (ipc_func (iv_crypto_ipc iv) = PSA_MAC_UPDATE \<longrightarrow>
            returned (mac_on_call env msg iv w) = Some (indeterminate_status env) \<and>
            engine_calls (trace (final (mac_on_call env msg iv w))) = engine_calls (trace w))"
  using assms
  by (simp add: hash_on_call_def mac_on_call_def read_update_loop.simps [of _ _ _ _ _ 0]
        prim_defs Let_def)

theorem update_of_empty_input_returns_uninitialised_status_witness:
  "returned (hash_on_call env_ok (msg_of PSA_IPC_CALL 1 9 [12, 0] [])
               (in_vec_of PSA_HASH_UPDATE 0) world0) = Some (PSA_ERROR_OTHER (- 1)) \<and>
   engine_calls (trace (final (hash_on_call env_ok (msg_of PSA_IPC_CALL 1 9 [12, 0] [])
               (in_vec_of PSA_HASH_UPDATE 0) world0))) = [] \<and>
   PSA_ERROR_OTHER (- 1) \<noteq> PSA_SUCCESS"
  using update_of_empty_input_returns_uninitialised_status
          [of env_ok world0 "msg_of PSA_IPC_CALL 1 9 [12, 0] []" "in_vec_of PSA_HASH_UPDATE 0"]
  by (simp add: env_ok_def world0_def msg_of_def in_vec_of_def NULL_def)

section \<open>The length of the fixed header\<close>

text \<open>
  Claim C7 fails for the services that go through \<^verbatim>\<open>read_message_param\<close>: the MAC
  handler never compares the declared length of parameter 0 with the size of its
  header, 12 bytes here. Whatever that declared length is up to 12, a MAC Call whose
  header decodes to \<^verbatim>\<open>PSA_MAC_ABORT\<close> reaches the sub-operation, calls the engine and is
  answered with the engine's status, not with \<^verbatim>\<open>PSA_ERROR_COMMUNICATION_FAILURE\<close>; and
  every declared length above 12 is read in full into the header and overruns it,
  without a reply.
\<close>

theorem mac_call_header_length_not_checked:
  "replies (trace (final (serve env_ok PSA_MAC (msg_of PSA_IPC_CALL 1 9 [min n 12] [])
                            (in_vec_of PSA_MAC_ABORT 0) world0))) = [(1, PSA_SUCCESS)] \<and>
   engine_calls (trace (final (serve env_ok PSA_MAC (msg_of PSA_IPC_CALL 1 9 [min n 12] [])
                            (in_vec_of PSA_MAC_ABORT 0) world0))) = [Mac (psa_mac_abort 9)] \<and>
   serve env_ok PSA_MAC (msg_of PSA_IPC_CALL 1 9 [13 + n] []) (in_vec_of PSA_MAC_ABORT 0)
       world0 =
     Undefined (world0\<lparr>trace := [Read 1 0 (13 + n)]\<rparr>)"
  by (simp add: serve_def message_handler_def mac_on_call_def prim_defs env_ok_def
        world0_def msg_of_def in_vec_of_def engine_success_def Let_def)

text \<open>
  Key management and key derivation make the check: a Call whose declared length of
  parameter 0 is not the size of the header is answered with
  \<^verbatim>\<open>PSA_ERROR_COMMUNICATION_FAILURE\<close> and nothing else happens.
\<close>

lemma key_management_header_length_checked:
  assumes "msg_type msg = PSA_IPC_CALL"
    and "in_size msg 0 \<noteq> sizeof_psa_key_mng_ipc_t env"
  shows "psa_key_management_operation env msg iv w =
           Done () (emit (Reply (msg_handle msg) PSA_ERROR_COMMUNICATION_FAILURE) w)"
  using assms
  by (simp add: psa_key_management_operation_def key_management_call_def prim_defs)

lemma generator_header_length_checked:
  assumes "msg_type msg = PSA_IPC_CALL"
    and "in_size msg 0 \<noteq> sizeof_psa_crypto_derivation_ipc_t env"
  shows "psa_crypto_generator_operations env msg iv w =
           Done () (emit (Reply (msg_handle msg) PSA_ERROR_COMMUNICATION_FAILURE) w)"
  using assms
  by (simp add: psa_crypto_generator_operations_def generator_call_def prim_defs)

section \<open>Properties of the dispatch loop\<close>

subsection \<open>Handlers add no dispatch event\<close>

lemma quiet_simps [simp]:
  "quiet w (Done x w') \<longleftrightarrow> (\<exists>d. trace w' = trace w @ d \<and> dispatch_skeleton d = [])"
  "quiet w (Panic w') \<longleftrightarrow> (\<exists>d. trace w' = trace w @ d \<and> dispatch_skeleton d = [])"
  "quiet w (Undefined w') \<longleftrightarrow> (\<exists>d. trace w' = trace w @ d \<and> dispatch_skeleton d = [])"
  by (simp_all add: quiet_def)

lemma quiet_trans:
  assumes "trace w2 = trace w @ d" and "dispatch_skeleton d = []" and "quiet w2 r"
  shows "quiet w r"
  using assms by (auto simp: quiet_def)

lemma quiet_read_update_loop: "quiet w (read_update_loop env k B sink status L w)"
proof (induction env k B sink status L w rule: read_update_loop.induct)
  case (1 env k B sink status data_remaining w)
  let ?n = "min data_remaining MAX_DATA_CHUNK_SIZE_IN_BYTES"
  let ?w1 = "emit (Read k 1 ?n) w"
  let ?w2 = "emit (Engine (sink ?n)) ?w1"
  show ?case
  proof (cases "data_remaining > 0 \<and> psa_read env k 1 B ?n w = Done ?n ?w1 \<and>
      res_status (engine env (trace ?w1) (sink ?n)) = PSA_SUCCESS")
    case True
    have step: "read_update_loop env k B sink status data_remaining w =
                read_update_loop env k B sink PSA_SUCCESS (data_remaining - ?n) ?w2"
      using True
      by (subst read_update_loop.simps) (simp add: call_engine_def Let_def)
    have "quiet ?w2 (read_update_loop env k B sink PSA_SUCCESS (data_remaining - ?n) ?w2)"
      using True "1.IH" [of ?n ?n ?w1 "call_engine env (sink ?n) ?w1"
                            "engine env (trace ?w1) (sink ?n)" ?w2]
      by (simp add: call_engine_def)
    moreover have "trace ?w2 = trace w @ [Read k 1 ?n, Engine (sink ?n)]"
      by (simp add: emit_def)
    moreover have "dispatch_skeleton [Read k 1 ?n, Engine (sink ?n)] = []"
      by simp
    ultimately show ?thesis
      unfolding step by (rule quiet_trans [rotated 2])
  next
    case False
    then show ?thesis
      by (subst read_update_loop.simps)
         (auto simp: psa_read_def call_engine_def emit_def Let_def split: if_splits)
  qed
qed

lemma quiet_and_then_loop:
  assumes "\<exists>d. trace w2 = trace w @ d \<and> dispatch_skeleton d = []"
    and "\<And>st w3. quiet w3 (f st w3)"
  shows "quiet w (and_then (read_update_loop env k B sink status L w2) f)"
proof -
  from assms(1) obtain d where d: "trace w2 = trace w @ d" "dispatch_skeleton d = []"
    by blast
  have "quiet w2 (and_then (read_update_loop env k B sink status L w2) f)"
  proof (cases "read_update_loop env k B sink status L w2")
    case (Done st w3)
    with quiet_read_update_loop [of w2 env k B sink status L] assms(2) [of w3 st]
    show ?thesis by (auto simp: quiet_def)
  next
    case (Panic w3)
    with quiet_read_update_loop [of w2 env k B sink status L] show ?thesis by simp
  next
    case (Undefined w3)
    with quiet_read_update_loop [of w2 env k B sink status L] show ?thesis by simp
  qed
  with d show ?thesis by (rule quiet_trans)
qed

lemma quiet_crypto_init_on_call: "quiet w (crypto_init_on_call env msg iv w)"
  by (simp add: crypto_init_on_call_def step_defs Let_def)

lemma quiet_crypto_free_on_call: "quiet w (crypto_free_on_call env msg iv w)"
  by (simp add: crypto_free_on_call_def step_defs Let_def)

lemma quiet_mac_on_connect: "quiet w (mac_on_connect env msg iv w)"
  by (simp add: mac_on_connect_def step_defs Let_def)

lemma quiet_mac_on_call: "quiet w (mac_on_call env msg iv w)"
  unfolding mac_on_call_def
  by (cases "ipc_func (iv_crypto_ipc iv)")
     (simp_all add: step_defs Let_def quiet_and_then_loop)

lemma quiet_mac_on_disconnect: "quiet w (mac_on_disconnect env msg iv w)"
  by (simp add: mac_on_disconnect_def step_defs Let_def)

lemma quiet_hash_on_connect: "quiet w (hash_on_connect env msg iv w)"
  by (simp add: hash_on_connect_def step_defs Let_def)

lemma quiet_hash_on_call: "quiet w (hash_on_call env msg iv w)"
  unfolding hash_on_call_def
  by (cases "ipc_func (iv_crypto_ipc iv)")
     (simp_all add: step_defs Let_def quiet_and_then_loop split: prod.splits option.splits)

lemma quiet_hash_on_disconnect: "quiet w (hash_on_disconnect env msg iv w)"
  by (simp add: hash_on_disconnect_def step_defs Let_def)

lemma quiet_symmetric_on_connect: "quiet w (symmetric_on_connect env msg iv w)"
  by (simp add: symmetric_on_connect_def step_defs Let_def)

lemma quiet_symmetric_on_call: "quiet w (symmetric_on_call env msg iv w)"
  unfolding symmetric_on_call_def
  by (cases "ipc_func (iv_crypto_ipc iv)") (simp_all add: step_defs Let_def)

lemma quiet_symmetric_on_disconnect: "quiet w (symmetric_on_disconnect env msg iv w)"
  by (simp add: symmetric_on_disconnect_def step_defs Let_def)

lemma quiet_asymmetric_on_call: "quiet w (asymmetric_on_call env msg iv w)"
  unfolding asymmetric_on_call_def
  by (cases "asym_func (iv_asymmetric iv)") (simp_all add: step_defs Let_def)

lemma quiet_aead_on_call: "quiet w (aead_on_call env msg iv w)"
  unfolding aead_on_call_def
  by (cases "aead_func (iv_aead iv)") (simp_all add: step_defs Let_def)

lemma quiet_rng_on_call: "quiet w (rng_on_call env msg iv w)"
  by (simp add: rng_on_call_def step_defs Let_def)

lemma quiet_entropy_on_call: "quiet w (entropy_on_call env msg iv w)"
  by (simp add: entropy_on_call_def step_defs Let_def)

lemma quiet_key_management_call: "quiet w (key_management_call env msg iv w)"
  unfolding key_management_call_def
  by (cases "key_mng_func (iv_key_mng iv)") (simp_all add: step_defs Let_def)

lemma quiet_generator_call: "quiet w (generator_call env msg iv w)"
  unfolding generator_call_def
  by (cases "derivation_func (iv_derivation iv)") (simp_all add: step_defs Let_def)

lemma quiet_generator_connect: "quiet w (generator_connect env msg iv w)"
  by (simp add: generator_connect_def step_defs Let_def)

lemma quiet_generator_disconnect: "quiet w (generator_disconnect env msg iv w)"
  by (simp add: generator_disconnect_def step_defs Let_def)


lemma replied_once_after:
  assumes "quiet w r"
    and "returned (and_then r (\<lambda>status w1. Done () (psa_reply h status w1))) = Some ()"
  shows "replied_once h w (and_then r (\<lambda>status w1. Done () (psa_reply h status w1)))"
proof (cases r)
  case (Done st w1)
  with assms(1) obtain d where "trace w1 = trace w @ d" "dispatch_skeleton d = []" by auto
  then show ?thesis
    using Done by (auto simp: replied_once_def psa_reply_def emit_def)
next
  case (Panic w1)
  with assms(2) show ?thesis by simp
next
  case (Undefined w1)
  with assms(2) show ?thesis by simp
qed

lemma message_handler_replies_once:
  assumes "\<And>h. connect_handler = Some h \<Longrightarrow> quiet w (h env msg iv w)"
    and "\<And>h. call_handler = Some h \<Longrightarrow> quiet w (h env msg iv w)"
    and "\<And>h. disconnect_handler = Some h \<Longrightarrow> quiet w (h env msg iv w)"
    and "returned (message_handler env msg iv connect_handler call_handler disconnect_handler w)
           = Some ()"
  shows "replied_once (msg_handle msg) w
           (message_handler env msg iv connect_handler call_handler disconnect_handler w)"
  using assms(4) unfolding message_handler_def
proof (rule replied_once_after [rotated])
  show "quiet w
     (case msg_type msg of
        PSA_IPC_CONNECT \<Rightarrow>
          (case connect_handler of None \<Rightarrow> Done PSA_SUCCESS w | Some h \<Rightarrow> h env msg iv w)
      | PSA_IPC_CALL \<Rightarrow>
          (case call_handler of None \<Rightarrow> Done PSA_SUCCESS w | Some h \<Rightarrow> h env msg iv w)
      | PSA_IPC_DISCONNECT \<Rightarrow>
          (case disconnect_handler of None \<Rightarrow> Done PSA_SUCCESS w | Some h \<Rightarrow> h env msg iv w)
      | PSA_IPC_OTHER t \<Rightarrow> Panic w)"
    using assms(1-3) by (auto split: msg_type_t.splits option.splits)
qed

lemma key_management_replies_once:
  assumes "returned (psa_key_management_operation env msg iv w) = Some ()"
  shows "replied_once (msg_handle msg) w (psa_key_management_operation env msg iv w)"
  using assms unfolding psa_key_management_operation_def
proof (rule replied_once_after [rotated])
  show "quiet w
     (case msg_type msg of
        PSA_IPC_CONNECT \<Rightarrow> Done PSA_SUCCESS w
      | PSA_IPC_DISCONNECT \<Rightarrow> Done PSA_SUCCESS w
      | PSA_IPC_CALL \<Rightarrow> key_management_call env msg iv w
      | PSA_IPC_OTHER t \<Rightarrow> Panic w)"
    using quiet_key_management_call [of w env msg iv]
    by (auto split: msg_type_t.splits)
qed

lemma generator_replies_once:
  assumes "returned (psa_crypto_generator_operations env msg iv w) = Some ()"
  shows "replied_once (msg_handle msg) w (psa_crypto_generator_operations env msg iv w)"
  using assms unfolding psa_crypto_generator_operations_def
proof (rule replied_once_after [rotated])
  show "quiet w
     (case msg_type msg of
        PSA_IPC_CONNECT \<Rightarrow> generator_connect env msg iv w
      | PSA_IPC_CALL \<Rightarrow> generator_call env msg iv w
      | PSA_IPC_DISCONNECT \<Rightarrow> generator_disconnect env msg iv w
      | PSA_IPC_OTHER t \<Rightarrow> Panic w)"
    using quiet_generator_call [of w env msg iv] quiet_generator_connect [of w env msg iv]
      quiet_generator_disconnect [of w env msg iv]
    by (auto split: msg_type_t.splits)
qed

lemma serve_replies_once:
  assumes "returned (serve env s msg iv w) = Some ()"
  shows "replied_once (msg_handle msg) w (serve env s msg iv w)"
proof (cases s)
  case PSA_CRYPTO_INIT
  with assms show ?thesis
    by (simp add: serve_def)
       (rule message_handler_replies_once, simp_all add: quiet_crypto_init_on_call)
next
  case PSA_MAC
  with assms show ?thesis
    by (simp add: serve_def)
       (rule message_handler_replies_once, simp_all add: quiet_mac_on_connect
            quiet_mac_on_call quiet_mac_on_disconnect)
next
  case PSA_HASH
  with assms show ?thesis
    by (simp add: serve_def)
       (rule message_handler_replies_once, simp_all add: quiet_hash_on_connect
            quiet_hash_on_call quiet_hash_on_disconnect)
next
  case PSA_SYMMETRIC
  with assms show ?thesis
    by (simp add: serve_def)
       (rule message_handler_replies_once, simp_all add: quiet_symmetric_on_connect
            quiet_symmetric_on_call quiet_symmetric_on_disconnect)
next
  case PSA_ASYMMETRIC
  with assms show ?thesis
    by (simp add: serve_def)
       (rule message_handler_replies_once, simp_all add: quiet_asymmetric_on_call)
next
  case PSA_AEAD
  with assms show ?thesis
    by (simp add: serve_def)
       (rule message_handler_replies_once, simp_all add: quiet_aead_on_call)
next
  case PSA_KEY_MNG
  with assms show ?thesis
    by (simp add: serve_def key_management_replies_once)
next
  case PSA_RNG
  with assms show ?thesis
    by (simp add: serve_def)
       (rule message_handler_replies_once, simp_all add: quiet_rng_on_call)
next
  case PSA_CRYPTO_FREE
  with assms show ?thesis
    by (simp add: serve_def)
       (rule message_handler_replies_once, simp_all add: quiet_crypto_free_on_call)
next
  case PSA_GENERATOR
  with assms show ?thesis
    by (simp add: serve_def generator_replies_once)
next
  case PSA_ENTROPY_INJECT
  with assms show ?thesis
    by (simp add: serve_def)
       (rule message_handler_replies_once, simp_all add: quiet_entropy_on_call)
qed

lemma service_signals_in_order:
  assumes "returned (service_signals env signal sigs w) = Some ()"
  shows "\<exists>d. trace (final (service_signals env signal sigs w)) = trace w @ d \<and>
             serviced_in_order (filter signal sigs) (dispatch_skeleton d)"
  using assms
proof (induction sigs arbitrary: w)
  case Nil
  then show ?case by simp
next
  case (Cons s rest)
  show ?case
  proof (cases "signal s")
    case False
    with Cons show ?thesis by simp
  next
    case True
    show ?thesis
    proof (cases "channel_get env (trace w) s")
      case None
      with True show ?thesis by (simp add: psa_get_def emit_def)
    next
      case (Some m)
      obtain msg iv where m: "m = (msg, iv)" by (cases m)
      let ?w1 = "emit (Get s (Some (msg_handle msg))) w"
      have unfold: "service_signals env signal (s # rest) w =
          and_then (serve env s msg iv ?w1) (\<lambda>u w2. service_signals env signal rest w2)"
        using True Some m by (simp add: psa_get_def)
      show ?thesis
      proof (cases "serve env s msg iv ?w1")
        case (Panic w2)
        with Cons.prems unfold show ?thesis by simp
      next
        case (Undefined w2)
        with Cons.prems unfold show ?thesis by simp
      next
        case (Done u w2)
        then have "returned (serve env s msg iv ?w1) = Some ()" by simp
        from serve_replies_once [OF this] Done
        obtain d1 st where d1: "trace w2 = trace ?w1 @ d1"
          "dispatch_skeleton d1 = [Reply (msg_handle msg) st]"
          by (auto simp: replied_once_def)
        have rest: "returned (service_signals env signal rest w2) = Some ()"
          using Cons.prems unfold Done by simp
        from Cons.IH [OF rest]
        obtain d2 where d2:
          "trace (final (service_signals env signal rest w2)) = trace w2 @ d2"
          "serviced_in_order (filter signal rest) (dispatch_skeleton d2)"
          by blast
        have "trace (final (service_signals env signal (s # rest) w)) =
                trace w @ ([Get s (Some (msg_handle msg))] @ d1 @ d2)"
          using d1 d2 unfold Done by (simp add: emit_def)
        moreover have "serviced_in_order (filter signal (s # rest))
                         (dispatch_skeleton ([Get s (Some (msg_handle msg))] @ d1 @ d2))"
          using True d1 d2 by simp
        ultimately show ?thesis by blast
      qed
    qed
  qed
qed


subsection \<open>The handler set of the signal runs\<close>

text \<open>
  What \<^verbatim>\<open>crypto_main\<close> runs for a message is the handler of the set of its signal for
  the type of the message, then the reply of the status that the handler returned.
\<close>

lemma serve_handler_set:
  "serve env s msg iv w =
     (case msg_type msg of
        PSA_IPC_OTHER n \<Rightarrow> Panic w
      | _ \<Rightarrow>
          and_then
            (case handler_set s (msg_type msg) of
               None \<Rightarrow> Done PSA_SUCCESS w
             | Some h \<Rightarrow> h env msg iv w)
            (\<lambda>status w1. Done () (psa_reply (msg_handle msg) status w1)))"
  by (cases s; cases "msg_type msg")
     (simp_all add: serve_def message_handler_def psa_key_management_operation_def
        psa_crypto_generator_operations_def handler_set_def)

lemma service_signals_serviced:
  assumes "returned (service_signals env signal sigs w) = Some ()"
  shows "serviced env (filter signal sigs) w (final (service_signals env signal sigs w))"
  using assms
proof (induction sigs arbitrary: w)
  case Nil
  then show ?case by simp
next
  case (Cons s rest)
  show ?case
  proof (cases "signal s")
    case False
    with Cons show ?thesis by simp
  next
    case True
    show ?thesis
    proof (cases "channel_get env (trace w) s")
      case None
      with True show ?thesis by (simp add: psa_get_def)
    next
      case (Some m)
      obtain msg iv where m: "m = (msg, iv)" by (cases m)
      let ?w1 = "emit (Get s (Some (msg_handle msg))) w"
      let ?h = "case handler_set s (msg_type msg) of
                  None \<Rightarrow> Done PSA_SUCCESS ?w1
                | Some h \<Rightarrow> h env msg iv ?w1"
      have unfold: "service_signals env signal (s # rest) w =
          and_then (serve env s msg iv ?w1) (\<lambda>u w2. service_signals env signal rest w2)"
        using True Some m by (simp add: psa_get_def)
      have known: "\<forall>n. msg_type msg \<noteq> PSA_IPC_OTHER n"
        using Cons.prems unfold by (auto simp: serve_handler_set [of env s msg iv ?w1])
      then have srv: "serve env s msg iv ?w1 =
          and_then ?h (\<lambda>status w1. Done () (psa_reply (msg_handle msg) status w1))"
        by (cases "msg_type msg") (simp_all add: serve_handler_set [of env s msg iv ?w1])
      show ?thesis
      proof (cases ?h)
        case (Panic w2)
        with Cons.prems unfold srv show ?thesis by simp
      next
        case (Undefined w2)
        with Cons.prems unfold srv show ?thesis by simp
      next
        case (Done status w2)
        let ?w3 = "emit (Reply (msg_handle msg) status) w2"
        have run: "service_signals env signal (s # rest) w = service_signals env signal rest ?w3"
          using unfold srv Done by (simp add: psa_reply_def)
        with Cons.prems have "returned (service_signals env signal rest ?w3) = Some ()"
          by simp
        from Cons.IH [OF this]
        have "serviced env (filter signal rest) ?w3
                (final (service_signals env signal rest ?w3))" .
        then show ?thesis
          using True Some m known Done run
          by (cases "msg_type msg") simp_all
      qed
    qed
  qed
qed

text \<open>
  Claim C8, as stated, fails in its last part: \<^verbatim>\<open>continue\<close> ends the iteration of
  \<^verbatim>\<open>while (1)\<close>. With the signals for crypto init and for random numbers asserted, a
  message pending for random numbers and the retrieval for crypto init failing, the
  iteration ends after that retrieval and the random-number signal is not serviced in it.
\<close>

theorem dispatch_iteration_stops_at_failed_retrieval_counterexample:
  "channel_wait env_first_get_fails (trace world0) PSA_RNG \<and>
   channel_get env_first_get_fails [Wait, Get PSA_CRYPTO_INIT None] PSA_RNG \<noteq> None \<and>
   crypto_main_iteration env_first_get_fails world0 =
     Done () (world0\<lparr>trace := [Wait, Get PSA_CRYPTO_INIT None]\<rparr>)"
  by (simp add: crypto_main_iteration_def psa_wait_def psa_get_def emit_def signal_order_def
        env_first_get_fails_def env_two_signals_def env_ok_def world0_def)

text \<open>
  Claim C8, amended. In an iteration of the dispatch loop that does not panic and
  overruns no destination, the asserted signals are taken in the order of the loop body;
  for each, one message retrieval is made, and when it succeeds the handler of the
  signal's handler set for the type of the message runs on that message and exactly one
  reply, of the status the handler returned and to the message retrieved, follows before
  the next retrieval; when a retrieval fails no reply is sent for that signal and the
  iteration ends there, so the asserted signals later in the order are not serviced in
  that iteration.
\<close>

theorem dispatch_iteration_services_in_order:
  assumes "returned (crypto_main_iteration env w) = Some ()"
  shows "serviced env (filter (channel_wait env (trace w)) signal_order) (emit Wait w)
           (final (crypto_main_iteration env w)) \<and>
         serviced_in_order (filter (channel_wait env (trace w)) signal_order)
           (dispatch_skeleton
              (drop (length (trace w)) (trace (final (crypto_main_iteration env w)))))"
proof -
  let ?w1 = "emit Wait w"
  let ?signal = "channel_wait env (trace w)"
  have it: "crypto_main_iteration env w = service_signals env ?signal signal_order ?w1"
    by (simp add: crypto_main_iteration_def psa_wait_def)
  from assms service_signals_in_order [of env ?signal signal_order ?w1]
  obtain d where d:
    "trace (final (crypto_main_iteration env w)) = trace ?w1 @ d"
    "serviced_in_order (filter ?signal signal_order) (dispatch_skeleton d)"
    unfolding it by blast
  then have "drop (length (trace w)) (trace (final (crypto_main_iteration env w))) = Wait # d"
    by (simp add: emit_def)
  with d(2) have "serviced_in_order (filter ?signal signal_order)
      (dispatch_skeleton
         (drop (length (trace w)) (trace (final (crypto_main_iteration env w)))))"
    by simp
  moreover from assms service_signals_serviced [of env ?signal signal_order ?w1]
  have "serviced env (filter ?signal signal_order) ?w1 (final (crypto_main_iteration env w))"
    unfolding it by blast
  ultimately show ?thesis by blast
qed

theorem dispatch_iteration_services_in_order_witness:
  "returned (crypto_main_iteration env_two_signals world0) = Some () \<and>
   serviced env_two_signals [PSA_CRYPTO_INIT, PSA_RNG] (emit Wait world0)
     (final (crypto_main_iteration env_two_signals world0)) \<and>
   trace (final (crypto_main_iteration env_two_signals world0)) =
     [Wait, Get PSA_CRYPTO_INIT (Some 1), Engine (System psa_crypto_init), AccessInit,
      Reply 1 PSA_SUCCESS, Get PSA_RNG (Some 2), Calloc 8,
      Engine (System (psa_generate_random 8)), Write 2 0 None 8, Free 7,
      Reply 2 PSA_SUCCESS] \<and>
   serviced_in_order [PSA_CRYPTO_INIT, PSA_RNG]
     (dispatch_skeleton (trace (final (crypto_main_iteration env_two_signals world0))))"
proof -
  have run: "crypto_main_iteration env_two_signals world0 =
      Done () (world0\<lparr>psa_spm_init_refence_counter := 1, heap := {},
         trace := [Wait, Get PSA_CRYPTO_INIT (Some 1), Engine (System psa_crypto_init),
                   AccessInit, Reply 1 PSA_SUCCESS, Get PSA_RNG (Some 2), Calloc 8,
                   Engine (System (psa_generate_random 8)), Write 2 0 None 8, Free 7,
                   Reply 2 PSA_SUCCESS]\<rparr>)"
    by (simp add: crypto_main_iteration_def psa_wait_def psa_get_def signal_order_def
          serve_def message_handler_def crypto_init_on_call_def rng_on_call_def step_defs
          env_two_signals_def env_ok_def world0_def msg_of_def engine_success_def
          NULL_def Let_def MAX_CONCURRENT_HASH_CLONES_def)
  have sigs: "filter (channel_wait env_two_signals (trace world0)) signal_order =
                [PSA_CRYPTO_INIT, PSA_RNG]"
    by (simp add: env_two_signals_def env_ok_def signal_order_def)
  from run have "returned (crypto_main_iteration env_two_signals world0) = Some ()" by simp
  from dispatch_iteration_services_in_order [OF this] run sigs show ?thesis by simp
qed

section \<open>Release of an operation context\<close>

subsection \<open>Handlers keep the blocks that are not theirs to free\<close>

lemma keeps_simps [simp]:
  "keeps p w (Done x w') \<longleftrightarrow>
     p \<in> heap w' \<and> (\<exists>d. trace w' = trace w @ d \<and> Free p \<notin> set d)"
  "keeps p w (Panic w') \<longleftrightarrow>
     p \<in> heap w' \<and> (\<exists>d. trace w' = trace w @ d \<and> Free p \<notin> set d)"
  "keeps p w (Undefined w') \<longleftrightarrow>
     p \<in> heap w' \<and> (\<exists>d. trace w' = trace w @ d \<and> Free p \<notin> set d)"
  by (simp_all add: keeps_def)

lemma keeps_trans:
  assumes "trace w2 = trace w @ d" and "Free p \<notin> set d" and "keeps p w2 r"
  shows "keeps p w r"
  using assms by (auto simp: keeps_def)

lemma keeps_read_update_loop:
  "p \<in> heap w \<Longrightarrow> keeps p w (read_update_loop env k B sink status L w)"
proof (induction env k B sink status L w rule: read_update_loop.induct)
  case (1 env k B sink status data_remaining w)
  let ?n = "min data_remaining MAX_DATA_CHUNK_SIZE_IN_BYTES"
  let ?w1 = "emit (Read k 1 ?n) w"
  let ?w2 = "emit (Engine (sink ?n)) ?w1"
  show ?case
  proof (cases "data_remaining > 0 \<and> psa_read env k 1 B ?n w = Done ?n ?w1 \<and>
      res_status (engine env (trace ?w1) (sink ?n)) = PSA_SUCCESS")
    case True
    have step: "read_update_loop env k B sink status data_remaining w =
                read_update_loop env k B sink PSA_SUCCESS (data_remaining - ?n) ?w2"
      using True
      by (subst read_update_loop.simps) (simp add: call_engine_def Let_def)
    have "keeps p ?w2 (read_update_loop env k B sink PSA_SUCCESS (data_remaining - ?n) ?w2)"
      using True "1.prems" "1.IH" [of ?n ?n ?w1 "call_engine env (sink ?n) ?w1"
                                      "engine env (trace ?w1) (sink ?n)" ?w2]
      by (simp add: call_engine_def emit_def)
    moreover have "trace ?w2 = trace w @ [Read k 1 ?n, Engine (sink ?n)]"
      by (simp add: emit_def)
    moreover have "Free p \<notin> set [Read k 1 ?n, Engine (sink ?n)]"
      by simp
    ultimately show ?thesis
      unfolding step by (rule keeps_trans [rotated 2])
  next
    case False
    then show ?thesis
      using "1.prems"
      by (subst read_update_loop.simps)
         (auto simp: psa_read_def call_engine_def emit_def Let_def split: if_splits)
  qed
qed

lemma keeps_and_then_loop:
  assumes "p \<in> heap w2 \<and> (\<exists>d. trace w2 = trace w @ d \<and> Free p \<notin> set d)"
    and "\<And>st w3. p \<in> heap w3 \<Longrightarrow> keeps p w3 (f st w3)"
  shows "keeps p w (and_then (read_update_loop env k B sink status L w2) f)"
proof -
  from assms(1) obtain d where d: "trace w2 = trace w @ d" "Free p \<notin> set d" "p \<in> heap w2"
    by blast
  have "keeps p w2 (and_then (read_update_loop env k B sink status L w2) f)"
  proof (cases "read_update_loop env k B sink status L w2")
    case (Done st w3)
    with keeps_read_update_loop [OF d(3), of env k B sink status L]
    have k: "p \<in> heap w3" "\<exists>d. trace w3 = trace w2 @ d \<and> Free p \<notin> set d" by simp_all
    from assms(2) [OF k(1), of st] k(2) Done show ?thesis
      by (auto simp: keeps_def)
  next
    case (Panic w3)
    with keeps_read_update_loop [OF d(3), of env k B sink status L] show ?thesis by simp
  next
    case (Undefined w3)
    with keeps_read_update_loop [OF d(3), of env k B sink status L] show ?thesis by simp
  qed
  with d(1,2) show ?thesis by (rule keeps_trans)
qed

lemma keeps_crypto_init_on_call:
  "p \<in> heap w \<Longrightarrow> keeps p w (crypto_init_on_call env msg iv w)"
  by (simp add: crypto_init_on_call_def step_defs Let_def)

lemma keeps_crypto_free_on_call:
  "p \<in> heap w \<Longrightarrow> keeps p w (crypto_free_on_call env msg iv w)"
  by (simp add: crypto_free_on_call_def step_defs Let_def)

lemma keeps_mac_on_connect:
  "p \<in> heap w \<Longrightarrow> keeps p w (mac_on_connect env msg iv w)"
  by (simp add: mac_on_connect_def step_defs Let_def)

lemma keeps_mac_on_call:
  assumes "p \<in> heap w" "p \<noteq> NULL"
  shows "keeps p w (mac_on_call env msg iv w)"
  using assms unfolding mac_on_call_def
  by (cases "ipc_func (iv_crypto_ipc iv)")
     (auto simp: step_defs Let_def intro!: keeps_and_then_loop)

lemma keeps_mac_on_disconnect:
  "p \<in> heap w \<Longrightarrow> rhandle msg \<noteq> p \<Longrightarrow> keeps p w (mac_on_disconnect env msg iv w)"
  by (simp add: mac_on_disconnect_def step_defs Let_def)

lemma keeps_hash_on_connect:
  "p \<in> heap w \<Longrightarrow> keeps p w (hash_on_connect env msg iv w)"
  by (simp add: hash_on_connect_def step_defs Let_def)

lemma keeps_hash_on_call:
  assumes "p \<in> heap w" "p \<noteq> NULL"
  shows "keeps p w (hash_on_call env msg iv w)"
  using assms unfolding hash_on_call_def
  by (cases "ipc_func (iv_crypto_ipc iv)")
     (auto simp: step_defs Let_def intro!: keeps_and_then_loop split: prod.splits option.splits)

lemma keeps_hash_on_disconnect:
  "p \<in> heap w \<Longrightarrow> rhandle msg \<noteq> p \<Longrightarrow> keeps p w (hash_on_disconnect env msg iv w)"
  by (simp add: hash_on_disconnect_def step_defs Let_def)

lemma keeps_symmetric_on_connect:
  "p \<in> heap w \<Longrightarrow> keeps p w (symmetric_on_connect env msg iv w)"
  by (simp add: symmetric_on_connect_def step_defs Let_def)

lemma keeps_symmetric_on_call:
  assumes "p \<in> heap w" "p \<noteq> NULL"
  shows "keeps p w (symmetric_on_call env msg iv w)"
  using assms unfolding symmetric_on_call_def
  by (cases "ipc_func (iv_crypto_ipc iv)") (auto simp: step_defs Let_def)

lemma keeps_symmetric_on_disconnect:
  "p \<in> heap w \<Longrightarrow> rhandle msg \<noteq> p \<Longrightarrow> keeps p w (symmetric_on_disconnect env msg iv w)"
  by (simp add: symmetric_on_disconnect_def step_defs Let_def)

lemma keeps_asymmetric_on_call:
  assumes "p \<in> heap w" "p \<noteq> NULL"
  shows "keeps p w (asymmetric_on_call env msg iv w)"
  using assms unfolding asymmetric_on_call_def
  by (cases "asym_func (iv_asymmetric iv)") (auto simp: step_defs Let_def)

lemma keeps_aead_on_call:
  assumes "p \<in> heap w" "p \<noteq> NULL"
  shows "keeps p w (aead_on_call env msg iv w)"
  using assms unfolding aead_on_call_def
  by (cases "aead_func (iv_aead iv)") (auto simp: step_defs Let_def)

lemma keeps_rng_on_call:
  assumes "p \<in> heap w" "p \<noteq> NULL"
  shows "keeps p w (rng_on_call env msg iv w)"
  using assms by (auto simp: rng_on_call_def step_defs Let_def)

lemma keeps_entropy_on_call:
  assumes "p \<in> heap w" "p \<noteq> NULL"
  shows "keeps p w (entropy_on_call env msg iv w)"
  using assms by (auto simp: entropy_on_call_def step_defs Let_def)

lemma keeps_key_management_call:
  assumes "p \<in> heap w" "p \<noteq> NULL"
  shows "keeps p w (key_management_call env msg iv w)"
  using assms unfolding key_management_call_def
  by (cases "key_mng_func (iv_key_mng iv)") (auto simp: step_defs Let_def)

lemma keeps_generator_call:
  assumes "p \<in> heap w" "p \<noteq> NULL"
  shows "keeps p w (generator_call env msg iv w)"
  using assms unfolding generator_call_def
  by (cases "derivation_func (iv_derivation iv)") (auto simp: step_defs Let_def)

lemma keeps_generator_connect:
  "p \<in> heap w \<Longrightarrow> keeps p w (generator_connect env msg iv w)"
  by (simp add: generator_connect_def step_defs Let_def)

lemma keeps_generator_disconnect:
  "p \<in> heap w \<Longrightarrow> rhandle msg \<noteq> p \<Longrightarrow> keeps p w (generator_disconnect env msg iv w)"
  by (simp add: generator_disconnect_def step_defs Let_def)

subsection \<open>The clone slots that reference a context\<close>

lemma clone_owner_inv_initial:
  "\<forall>slot \<in> set clones. source_operation slot \<noteq> p \<Longrightarrow> clone_owner_inv c p clones"
  by (auto simp: clone_owner_inv_def)

lemma clone_owner_inv_memset:
  "p \<noteq> NULL \<Longrightarrow> clone_owner_inv c p (map (\<lambda>c. zeroed_clone) clones)"
  by (auto simp: clone_owner_inv_def zeroed_clone_def)

lemma clone_owner_inv_update:
  assumes inv: "clone_owner_inv c p clones"
    and y: "source_operation y = p \<Longrightarrow>
              partition_id y = c \<and>
              (\<forall>k < length clones. k \<noteq> i \<longrightarrow> source_operation (clones ! k) \<noteq> p)"
  shows "clone_owner_inv c p (clones[i := y])"
  unfolding clone_owner_inv_def
proof (intro conjI allI impI)
  fix a b
  assume h: "a < length (clones[i := y]) \<and> b < length (clones[i := y]) \<and>
             source_operation (clones[i := y] ! a) = p \<and>
             source_operation (clones[i := y] ! b) = p"
  then have la: "a < length clones" and lb: "b < length clones" by simp_all
  show "a = b"
  proof (cases "a = i")
    case ai: True
    show ?thesis
    proof (cases "b = i")
      case True
      with ai show ?thesis by simp
    next
      case False
      from h ai la have "source_operation y = p" by simp
      with y lb False have "source_operation (clones ! b) \<noteq> p" by blast
      moreover from h False have "source_operation (clones ! b) = p" by simp
      ultimately show ?thesis by simp
    qed
  next
    case ani: False
    show ?thesis
    proof (cases "b = i")
      case True
      from h True lb have "source_operation y = p" by simp
      with y la ani have "source_operation (clones ! a) \<noteq> p" by blast
      moreover from h ani have "source_operation (clones ! a) = p" by simp
      ultimately show ?thesis by simp
    next
      case False
      from h ani False have "source_operation (clones ! a) = p"
        "source_operation (clones ! b) = p" by simp_all
      with inv la lb show ?thesis unfolding clone_owner_inv_def by blast
    qed
  qed
next
  fix k
  assume h: "k < length (clones[i := y]) \<and> source_operation (clones[i := y] ! k) = p"
  then have lk: "k < length clones" by simp
  show "partition_id (clones[i := y] ! k) = c"
  proof (cases "k = i")
    case True
    with h lk have "source_operation y = p" by simp
    with y have "partition_id y = c" by blast
    with True lk show ?thesis by simp
  next
    case False
    with h have "source_operation (clones ! k) = p" by simp
    with inv lk have "partition_id (clones ! k) = c" unfolding clone_owner_inv_def by blast
    with False show ?thesis by simp
  qed
qed

lemma clone_owner_inv_unique:
  assumes "clone_owner_inv c p clones" "i < length clones" "source_operation (clones ! i) = p"
  shows "\<forall>k < length clones. k \<noteq> i \<longrightarrow> source_operation (clones ! k) \<noteq> p"
  using assms unfolding clone_owner_inv_def by blast

lemma clone_owner_inv_owner:
  assumes "clone_owner_inv c p clones" "i < length clones" "source_operation (clones ! i) = p"
  shows "partition_id (clones ! i) = c"
  using assms unfolding clone_owner_inv_def by blast

lemma clone_owner_inv_release:
  assumes inv: "clone_owner_inv c p clones" and p: "p \<noteq> NULL" and i: "i < length clones"
  shows "clone_owner_inv c p (clones[i := release_hash_clone (clones ! i)])"
proof (rule clone_owner_inv_update [OF inv])
  assume a: "source_operation (release_hash_clone (clones ! i)) = p"
  have src: "source_operation (clones ! i) = p"
    using a p by (auto simp: release_hash_clone_def Let_def split: if_splits)
  have pid: "partition_id (release_hash_clone (clones ! i)) = partition_id (clones ! i)"
    using a p by (auto simp: release_hash_clone_def Let_def split: if_splits)
  show "partition_id (release_hash_clone (clones ! i)) = c \<and>
        (\<forall>k < length clones. k \<noteq> i \<longrightarrow> source_operation (clones ! k) \<noteq> p)"
    using pid clone_owner_inv_owner [OF inv i src] clone_owner_inv_unique [OF inv i src]
    by simp
qed

lemma clone_owner_inv_destroy:
  assumes inv: "clone_owner_inv c p clones" and p: "p \<noteq> NULL"
  shows "clone_owner_inv c p (destroy_hash_clone q clones)"
proof (cases "scan_clones (\<lambda>c. source_operation c = q) clones 0")
  case None
  with inv show ?thesis by (simp add: destroy_hash_clone_def)
next
  case (Some i)
  have "clone_owner_inv c p
          (clones[i := (clones ! i)\<lparr>partition_id := 0, source_operation := NULL,
                                    ref_count := 0\<rparr>])"
    by (rule clone_owner_inv_update [OF inv]) (use p in simp)
  then show ?thesis by (simp add: destroy_hash_clone_def Some)
qed

lemma destroy_hash_clone_clears:
  assumes "clone_owner_inv c p clones" "p \<noteq> NULL"
  shows "\<forall>slot \<in> set (destroy_hash_clone p clones). source_operation slot \<noteq> p"
proof (cases "scan_clones (\<lambda>c. source_operation c = p) clones 0")
  case None
  then have "\<forall>k < length clones. source_operation (clones ! k) \<noteq> p"
    by (simp add: scan_clones_None)
  then show ?thesis
    using None by (auto simp: destroy_hash_clone_def in_set_conv_nth)
next
  case (Some i)
  note si = scan_clones_Some [OF Some]
  have "\<forall>k < length clones. source_operation
          ((clones[i := (clones ! i)\<lparr>partition_id := 0, source_operation := NULL,
                                    ref_count := 0\<rparr>]) ! k) \<noteq> p"
  proof (intro allI impI)
    fix k assume k: "k < length clones"
    show "source_operation
          ((clones[i := (clones ! i)\<lparr>partition_id := 0, source_operation := NULL,
                                    ref_count := 0\<rparr>]) ! k) \<noteq> p"
    proof (cases "k = i")
      case True
      with k assms(2) show ?thesis by simp
    next
      case False
      then have "source_operation (clones ! k) \<noteq> p"
        using assms(1) si k unfolding clone_owner_inv_def by blast
      with False show ?thesis by simp
    qed
  qed
  then show ?thesis
    using Some by (auto simp: destroy_hash_clone_def in_set_conv_nth)
qed

lemma clone_owner_inv_reserve:
  assumes inv: "clone_owner_inv c p clones" and p: "p \<noteq> NULL"
    and own: "q = p \<longrightarrow> c' = c"
  shows "clone_owner_inv c p (snd (snd (reserve_hash_clone c' q clones)))"
proof (cases "scan_clones (\<lambda>s. partition_id s = c' \<and> source_operation s = q) clones 0")
  case (Some i)
  note si = scan_clones_Some [OF Some]
  then have il: "i < length clones" by simp
  have "clone_owner_inv c p (clones[i := (clones ! i)\<lparr>ref_count := ref_count (clones ! i) + 1\<rparr>])"
  proof (rule clone_owner_inv_update [OF inv])
    assume "source_operation ((clones ! i)\<lparr>ref_count := ref_count (clones ! i) + 1\<rparr>) = p"
    then have src: "source_operation (clones ! i) = p" by simp
    show "partition_id ((clones ! i)\<lparr>ref_count := ref_count (clones ! i) + 1\<rparr>) = c \<and>
          (\<forall>k < length clones. k \<noteq> i \<longrightarrow> source_operation (clones ! k) \<noteq> p)"
      using clone_owner_inv_owner [OF inv il src] clone_owner_inv_unique [OF inv il src]
      by simp
  qed
  then show ?thesis by (simp add: reserve_hash_clone_def Some)
next
  case None
  note none = None [unfolded scan_clones_None]
  show ?thesis
  proof (cases "scan_clones (\<lambda>s. partition_id s = 0 \<and> source_operation s = NULL) clones 0")
    case n2: None
    with None inv show ?thesis by (simp add: reserve_hash_clone_def)
  next
    case (Some i)
    have "clone_owner_inv c p
            (clones[i := (clones ! i)\<lparr>partition_id := c', source_operation := q,
                                      ref_count := ref_count (clones ! i) + 1\<rparr>])"
    proof (rule clone_owner_inv_update [OF inv])
      assume "source_operation ((clones ! i)\<lparr>partition_id := c', source_operation := q,
                                  ref_count := ref_count (clones ! i) + 1\<rparr>) = p"
      then have qp: "q = p" by simp
      with own have cc: "c' = c" by simp
      have "\<forall>k < length clones. source_operation (clones ! k) \<noteq> p"
      proof (intro allI impI notI)
        fix k assume k: "k < length clones" "source_operation (clones ! k) = p"
        from clone_owner_inv_owner [OF inv k] have "partition_id (clones ! k) = c" .
        with none k qp cc show False by auto
      qed
      then show "partition_id ((clones ! i)\<lparr>partition_id := c', source_operation := q,
                                  ref_count := ref_count (clones ! i) + 1\<rparr>) = c \<and>
            (\<forall>k < length clones. k \<noteq> i \<longrightarrow> source_operation (clones ! k) \<noteq> p)"
        using cc by simp
    qed
    then show ?thesis by (simp add: reserve_hash_clone_def None Some)
  qed
qed


lemma clone_owner_inv_reserve_result:
  assumes "reserve_hash_clone c' q clones = (st, idx, clones')"
    and "clone_owner_inv c p clones" "p \<noteq> NULL" "q = p \<longrightarrow> c' = c"
  shows "clone_owner_inv c p clones'"
  using clone_owner_inv_reserve [OF assms(2-4)] assms(1) by simp

lemma get_hash_clone_Some:
  "get_hash_clone index pid clones = (st, Some i) \<Longrightarrow> i < length clones"
  by (auto simp: get_hash_clone_def split: if_splits)

subsection \<open>The handlers and the clone slots\<close>

lemma read_update_loop_clones:
  "psa_spm_hash_clones (final (read_update_loop env k B sink status L w)) =
   psa_spm_hash_clones w"
proof (induction env k B sink status L w rule: read_update_loop.induct)
  case (1 env k B sink status data_remaining w)
  let ?n = "min data_remaining MAX_DATA_CHUNK_SIZE_IN_BYTES"
  let ?w1 = "emit (Read k 1 ?n) w"
  let ?w2 = "emit (Engine (sink ?n)) ?w1"
  show ?case
  proof (cases "data_remaining > 0 \<and> psa_read env k 1 B ?n w = Done ?n ?w1 \<and>
      res_status (engine env (trace ?w1) (sink ?n)) = PSA_SUCCESS")
    case True
    have step: "read_update_loop env k B sink status data_remaining w =
                read_update_loop env k B sink PSA_SUCCESS (data_remaining - ?n) ?w2"
      using True
      by (subst read_update_loop.simps) (simp add: call_engine_def Let_def)
    have "psa_spm_hash_clones
            (final (read_update_loop env k B sink PSA_SUCCESS (data_remaining - ?n) ?w2)) =
          psa_spm_hash_clones ?w2"
      using True "1.IH" [of ?n ?n ?w1 "call_engine env (sink ?n) ?w1"
                            "engine env (trace ?w1) (sink ?n)" ?w2]
      by (simp add: call_engine_def)
    then show ?thesis by (simp add: step emit_def)
  next
    case False
    then show ?thesis
      by (subst read_update_loop.simps)
         (auto simp: psa_read_def call_engine_def emit_def Let_def split: if_splits)
  qed
qed

lemma clones_and_then_loop:
  assumes "\<And>st w3. psa_spm_hash_clones w3 = psa_spm_hash_clones w2 \<Longrightarrow>
             clone_owner_inv c p (psa_spm_hash_clones (final (f st w3)))"
    and "clone_owner_inv c p (psa_spm_hash_clones w2)"
  shows "clone_owner_inv c p
           (psa_spm_hash_clones (final (and_then (read_update_loop env k B sink status L w2) f)))"
  using read_update_loop_clones [of env k B sink status L w2] assms
  by (cases "read_update_loop env k B sink status L w2") simp_all

lemma clones_unchanged_and_then_loop:
  assumes "\<And>st w3. psa_spm_hash_clones w3 = psa_spm_hash_clones w2 \<Longrightarrow>
             psa_spm_hash_clones (final (f st w3)) = psa_spm_hash_clones w2"
  shows "psa_spm_hash_clones (final (and_then (read_update_loop env k B sink status L w2) f)) =
         psa_spm_hash_clones w2"
  using read_update_loop_clones [of env k B sink status L w2] assms
  by (cases "read_update_loop env k B sink status L w2") simp_all

lemma clones_mac_on_call:
  "psa_spm_hash_clones (final (mac_on_call env msg iv w)) = psa_spm_hash_clones w"
  unfolding mac_on_call_def
  by (cases "ipc_func (iv_crypto_ipc iv)")
     (simp_all add: step_defs Let_def clones_unchanged_and_then_loop)

lemma clones_symmetric_on_call:
  "psa_spm_hash_clones (final (symmetric_on_call env msg iv w)) = psa_spm_hash_clones w"
  unfolding symmetric_on_call_def
  by (cases "ipc_func (iv_crypto_ipc iv)") (simp_all add: step_defs Let_def)

lemma clones_asymmetric_on_call:
  "psa_spm_hash_clones (final (asymmetric_on_call env msg iv w)) = psa_spm_hash_clones w"
  unfolding asymmetric_on_call_def
  by (cases "asym_func (iv_asymmetric iv)") (simp_all add: step_defs Let_def)

lemma clones_aead_on_call:
  "psa_spm_hash_clones (final (aead_on_call env msg iv w)) = psa_spm_hash_clones w"
  unfolding aead_on_call_def
  by (cases "aead_func (iv_aead iv)") (simp_all add: step_defs Let_def)

lemma clones_key_management_call:
  "psa_spm_hash_clones (final (key_management_call env msg iv w)) = psa_spm_hash_clones w"
  unfolding key_management_call_def
  by (cases "key_mng_func (iv_key_mng iv)") (simp_all add: step_defs Let_def)

lemma clones_generator_call:
  "psa_spm_hash_clones (final (generator_call env msg iv w)) = psa_spm_hash_clones w"
  unfolding generator_call_def
  by (cases "derivation_func (iv_derivation iv)") (simp_all add: step_defs Let_def)

lemma clone_owner_inv_hash_on_call:
  assumes "clone_owner_inv c p (psa_spm_hash_clones w)" "p \<noteq> NULL"
    and "rhandle msg = p \<longrightarrow> client_id msg = c"
  shows "clone_owner_inv c p (psa_spm_hash_clones (final (hash_on_call env msg iv w)))"
  using assms unfolding hash_on_call_def
  by (cases "ipc_func (iv_crypto_ipc iv)")
     (auto simp: step_defs Let_def
           intro!: clones_and_then_loop clone_owner_inv_destroy clone_owner_inv_release
           dest: get_hash_clone_Some
           elim: clone_owner_inv_reserve_result
           split: prod.splits option.splits)


subsection \<open>Serving one message\<close>

lemma keeps_reply:
  assumes "keeps p w r"
  shows "keeps p w (and_then r (\<lambda>status w1. Done () (psa_reply h status w1)))"
proof (cases r)
  case (Done st w1)
  with assms obtain d where "p \<in> heap w1" "trace w1 = trace w @ d" "Free p \<notin> set d" by auto
  then show ?thesis using Done by (simp add: psa_reply_def emit_def)
next
  case (Panic w1)
  with assms show ?thesis by simp
next
  case (Undefined w1)
  with assms show ?thesis by simp
qed

lemma clones_reply:
  "psa_spm_hash_clones (final (and_then r (\<lambda>status w1. Done () (psa_reply h status w1)))) =
   psa_spm_hash_clones (final r)"
  by (cases r) (simp_all add: psa_reply_def emit_def)

lemma keeps_message_handler:
  assumes "\<And>h. connect_handler = Some h \<Longrightarrow> msg_type msg = PSA_IPC_CONNECT \<Longrightarrow>
             keeps p w (h env msg iv w)"
    and "\<And>h. call_handler = Some h \<Longrightarrow> msg_type msg = PSA_IPC_CALL \<Longrightarrow>
             keeps p w (h env msg iv w)"
    and "\<And>h. disconnect_handler = Some h \<Longrightarrow> msg_type msg = PSA_IPC_DISCONNECT \<Longrightarrow>
             keeps p w (h env msg iv w)"
    and "p \<in> heap w"
  shows "keeps p w
           (message_handler env msg iv connect_handler call_handler disconnect_handler w)"
  unfolding message_handler_def
proof (rule keeps_reply)
  show "keeps p w
     (case msg_type msg of
        PSA_IPC_CONNECT \<Rightarrow>
          (case connect_handler of None \<Rightarrow> Done PSA_SUCCESS w | Some h \<Rightarrow> h env msg iv w)
      | PSA_IPC_CALL \<Rightarrow>
          (case call_handler of None \<Rightarrow> Done PSA_SUCCESS w | Some h \<Rightarrow> h env msg iv w)
      | PSA_IPC_DISCONNECT \<Rightarrow>
          (case disconnect_handler of None \<Rightarrow> Done PSA_SUCCESS w | Some h \<Rightarrow> h env msg iv w)
      | PSA_IPC_OTHER t \<Rightarrow> Panic w)"
    using assms by (auto split: msg_type_t.splits option.splits)
qed

lemma keeps_serve:
  assumes h: "p \<in> heap w" and p: "p \<noteq> NULL"
    and own: "rhandle msg = p \<longrightarrow> msg_type msg = PSA_IPC_CALL"
  shows "keeps p w (serve env s msg iv w)"
proof (cases s)
  case PSA_CRYPTO_INIT
  then show ?thesis
    by (simp add: serve_def)
       (rule keeps_message_handler, simp_all add: h keeps_crypto_init_on_call)
next
  case PSA_MAC
  then show ?thesis
    using own
    by (simp add: serve_def)
       (rule keeps_message_handler,
        auto simp: h p keeps_mac_on_connect keeps_mac_on_call keeps_mac_on_disconnect)
next
  case PSA_HASH
  then show ?thesis
    using own
    by (simp add: serve_def)
       (rule keeps_message_handler,
        auto simp: h p keeps_hash_on_connect keeps_hash_on_call keeps_hash_on_disconnect)
next
  case PSA_SYMMETRIC
  then show ?thesis
    using own
    by (simp add: serve_def)
       (rule keeps_message_handler,
        auto simp: h p keeps_symmetric_on_connect keeps_symmetric_on_call
          keeps_symmetric_on_disconnect)
next
  case PSA_ASYMMETRIC
  then show ?thesis
    by (simp add: serve_def)
       (rule keeps_message_handler, simp_all add: h p keeps_asymmetric_on_call)
next
  case PSA_AEAD
  then show ?thesis
    by (simp add: serve_def)
       (rule keeps_message_handler, simp_all add: h p keeps_aead_on_call)
next
  case PSA_KEY_MNG
  have "keeps p w
     (case msg_type msg of
        PSA_IPC_CONNECT \<Rightarrow> Done PSA_SUCCESS w
      | PSA_IPC_DISCONNECT \<Rightarrow> Done PSA_SUCCESS w
      | PSA_IPC_CALL \<Rightarrow> key_management_call env msg iv w
      | PSA_IPC_OTHER t \<Rightarrow> Panic w)"
    using keeps_key_management_call [OF h p, of env msg iv] h
    by (auto split: msg_type_t.splits)
  then show ?thesis
    unfolding PSA_KEY_MNG serve_def psa_key_management_operation_def
    by (simp add: keeps_reply)
next
  case PSA_RNG
  then show ?thesis
    by (simp add: serve_def)
       (rule keeps_message_handler, simp_all add: h p keeps_rng_on_call)
next
  case PSA_CRYPTO_FREE
  then show ?thesis
    by (simp add: serve_def)
       (rule keeps_message_handler, simp_all add: h keeps_crypto_free_on_call)
next
  case PSA_GENERATOR
  have "keeps p w
     (case msg_type msg of
        PSA_IPC_CONNECT \<Rightarrow> generator_connect env msg iv w
      | PSA_IPC_CALL \<Rightarrow> generator_call env msg iv w
      | PSA_IPC_DISCONNECT \<Rightarrow> generator_disconnect env msg iv w
      | PSA_IPC_OTHER t \<Rightarrow> Panic w)"
    using keeps_generator_call [OF h p, of env msg iv] h own
      keeps_generator_connect [OF h, of env msg iv]
      keeps_generator_disconnect [OF h, of msg env iv]
    by (auto split: msg_type_t.splits)
  then show ?thesis
    unfolding PSA_GENERATOR serve_def psa_crypto_generator_operations_def
    by (simp add: keeps_reply)
next
  case PSA_ENTROPY_INJECT
  then show ?thesis
    by (simp add: serve_def)
       (rule keeps_message_handler, simp_all add: h p keeps_entropy_on_call)
qed

lemmas conn_defs =
  emit_def call_engine_def mbedtls_calloc_def mbedtls_free_def psa_set_rhandle_def
  read_message_param_def psa_read_def psa_write_def
  memset_hash_clones_def destroy_hash_clone_global_def
  psa_crypto_access_control_init_def psa_crypto_access_control_destroy_def

lemma clone_owner_inv_serve:
  assumes inv: "clone_owner_inv c p (psa_spm_hash_clones w)" and p: "p \<noteq> NULL"
    and own: "s = PSA_HASH \<longrightarrow> rhandle msg = p \<longrightarrow> client_id msg = c"
  shows "clone_owner_inv c p (psa_spm_hash_clones (final (serve env s msg iv w)))"
proof (cases s)
  case PSA_HASH
  with own have own': "rhandle msg = p \<longrightarrow> client_id msg = c" by simp
  show ?thesis
    using inv p own' clone_owner_inv_hash_on_call [OF inv p own', of env iv]
    unfolding PSA_HASH serve_def message_handler_def
    by (auto simp: clones_reply hash_on_connect_def hash_on_disconnect_def conn_defs Let_def
          intro!: clone_owner_inv_destroy split: msg_type_t.splits)
next
  case PSA_CRYPTO_INIT
  show ?thesis
    using inv p unfolding PSA_CRYPTO_INIT serve_def message_handler_def
    by (auto simp: clones_reply crypto_init_on_call_def conn_defs Let_def
          clone_owner_inv_memset split: msg_type_t.splits)
next
  case PSA_CRYPTO_FREE
  show ?thesis
    using inv p unfolding PSA_CRYPTO_FREE serve_def message_handler_def
    by (auto simp: clones_reply crypto_free_on_call_def conn_defs Let_def
          clone_owner_inv_memset split: msg_type_t.splits)
next
  case PSA_MAC
  show ?thesis
    using inv unfolding PSA_MAC serve_def message_handler_def
    by (auto simp: clones_reply clones_mac_on_call mac_on_connect_def mac_on_disconnect_def
          conn_defs Let_def split: msg_type_t.splits)
next
  case PSA_SYMMETRIC
  show ?thesis
    using inv unfolding PSA_SYMMETRIC serve_def message_handler_def
    by (auto simp: clones_reply clones_symmetric_on_call symmetric_on_connect_def
          symmetric_on_disconnect_def conn_defs Let_def split: msg_type_t.splits)
next
  case PSA_ASYMMETRIC
  show ?thesis
    using inv unfolding PSA_ASYMMETRIC serve_def message_handler_def
    by (auto simp: clones_reply clones_asymmetric_on_call split: msg_type_t.splits)
next
  case PSA_AEAD
  show ?thesis
    using inv unfolding PSA_AEAD serve_def message_handler_def
    by (auto simp: clones_reply clones_aead_on_call split: msg_type_t.splits)
next
  case PSA_KEY_MNG
  show ?thesis
    using inv unfolding PSA_KEY_MNG serve_def psa_key_management_operation_def
    by (auto simp: clones_reply clones_key_management_call split: msg_type_t.splits)
next
  case PSA_RNG
  show ?thesis
    using inv unfolding PSA_RNG serve_def message_handler_def
    by (auto simp: clones_reply rng_on_call_def conn_defs Let_def split: msg_type_t.splits)
next
  case PSA_GENERATOR
  show ?thesis
    using inv unfolding PSA_GENERATOR serve_def psa_crypto_generator_operations_def
    by (auto simp: clones_reply clones_generator_call generator_connect_def
          generator_disconnect_def conn_defs Let_def split: msg_type_t.splits)
next
  case PSA_ENTROPY_INJECT
  show ?thesis
    using inv unfolding PSA_ENTROPY_INJECT serve_def message_handler_def
    by (auto simp: clones_reply entropy_on_call_def conn_defs Let_def
          split: msg_type_t.splits)
qed

subsection \<open>Connect and Disconnect of a service with a context\<close>

lemma serve_connect:
  assumes "s \<in> {PSA_MAC, PSA_HASH, PSA_SYMMETRIC}"
    and "msg_type msg = PSA_IPC_CONNECT"
    and "allocator env (trace w) (context_size env s) = p"
    and "p \<notin> insert NULL (heap w)"
  shows "serve env s msg iv w =
           Done () (w\<lparr>heap := insert p (heap w),
                      trace := trace w @ [Calloc (context_size env s),
                                          SetRhandle (msg_handle msg) p,
                                          Reply (msg_handle msg) PSA_SUCCESS]\<rparr>)"
  using assms
  by (auto simp: serve_def message_handler_def mac_on_connect_def hash_on_connect_def
        symmetric_on_connect_def context_size_def step_defs Let_def)

lemma serve_disconnect:
  assumes "s \<in> {PSA_MAC, PSA_HASH, PSA_SYMMETRIC}"
    and "msg_type msg = PSA_IPC_DISCONNECT"
    and "rhandle msg = p" and "p \<noteq> NULL"
  shows "serve env s msg iv w =
           Done () (psa_reply (msg_handle msg) PSA_SUCCESS (mbedtls_free p
             ((if s = PSA_HASH then destroy_hash_clone_global p else (\<lambda>w. w))
                (emit (Engine (abort_call s p)) w))))"
  using assms
  by (auto simp: serve_def message_handler_def mac_on_disconnect_def hash_on_disconnect_def
        symmetric_on_disconnect_def abort_call_def call_engine_def Let_def)

subsection \<open>The clone slots that reference no attached hash context\<close>

lemma no_reference_iff:
  "(\<forall>slot \<in> set clones. source_operation slot \<noteq> q) \<longleftrightarrow>
   clone_owner_inv 0 q clones \<and> clone_owner_inv 1 q clones"
proof
  assume "\<forall>slot \<in> set clones. source_operation slot \<noteq> q"
  then show "clone_owner_inv 0 q clones \<and> clone_owner_inv 1 q clones"
    by (simp add: clone_owner_inv_initial)
next
  assume a: "clone_owner_inv 0 q clones \<and> clone_owner_inv 1 q clones"
  show "\<forall>slot \<in> set clones. source_operation slot \<noteq> q"
  proof (intro ballI notI)
    fix slot assume "slot \<in> set clones" "source_operation slot = q"
    then obtain i where i: "i < length clones" "source_operation (clones ! i) = q"
      by (auto simp: in_set_conv_nth)
    from a clone_owner_inv_owner [OF _ i]
    have "partition_id (clones ! i) = 0" "partition_id (clones ! i) = 1" by blast+
    then show False by simp
  qed
qed

lemma no_reference_serve:
  assumes "\<forall>slot \<in> set (psa_spm_hash_clones w). source_operation slot \<noteq> q"
    and "q \<noteq> NULL"
    and "s = PSA_HASH \<longrightarrow> rhandle msg \<noteq> q"
  shows "\<forall>slot \<in> set (psa_spm_hash_clones (final (serve env s msg iv w))).
           source_operation slot \<noteq> q"
proof -
  from assms(1) have "clone_owner_inv 0 q (psa_spm_hash_clones w)"
    "clone_owner_inv 1 q (psa_spm_hash_clones w)"
    by (simp_all add: no_reference_iff)
  then have "clone_owner_inv 0 q (psa_spm_hash_clones (final (serve env s msg iv w)))"
    "clone_owner_inv 1 q (psa_spm_hash_clones (final (serve env s msg iv w)))"
    using assms(2,3) by (auto intro!: clone_owner_inv_serve)
  then show ?thesis by (simp add: no_reference_iff)
qed

lemma hash_disconnect_clears:
  assumes "clone_owner_inv c q (psa_spm_hash_clones w)" and "q \<noteq> NULL"
    and "msg_type msg = PSA_IPC_DISCONNECT" and "rhandle msg = q"
  shows "\<forall>slot \<in> set (psa_spm_hash_clones (final (serve env PSA_HASH msg iv w))).
           source_operation slot \<noteq> q"
  using destroy_hash_clone_clears [OF assms(1,2)] assms(2-4)
  by (simp add: serve_disconnect [of PSA_HASH msg q] psa_reply_def mbedtls_free_def
        destroy_hash_clone_global_def emit_def)

lemma attached_append [simp]: "attached (xs @ ys) = attached xs @ attached ys"
  by (induction xs rule: attached.induct) simp_all

lemma serve_connect_attached:
  assumes "msg_type msg = PSA_IPC_CONNECT" and "serve env s msg iv w = Done u w'"
  shows "psa_spm_hash_clones w' = psa_spm_hash_clones w \<and> heap w \<subseteq> heap w' \<and>
         (\<forall>q \<in> set (attached (drop (length (trace w)) (trace w'))).
            q \<noteq> NULL \<and> q \<notin> heap w \<and> q \<in> heap w')"
  using assms
  by (cases s)
     (auto simp: serve_def message_handler_def psa_key_management_operation_def
        psa_crypto_generator_operations_def mac_on_connect_def hash_on_connect_def
        symmetric_on_connect_def generator_connect_def prim_defs Let_def
        split: if_splits)

lemma fold_attach:
  "fold (\<lambda>p c. c(p \<mapsto> v)) ps ctx q = (if q \<in> set ps then Some v else ctx q)"
  by (induction ps arbitrary: ctx) auto

subsection \<open>The attached contexts between messages\<close>

text \<open>
  \<open>session_inv\<close> holds at start-up, where no clone slot has a source, and every message
  that the channel may deliver keeps it.
\<close>

lemma session_inv_D:
  assumes "session_inv ctx w"
  shows "ctx NULL = None"
    and "\<And>q. ctx q \<noteq> None \<Longrightarrow> q \<in> heap w"
    and "\<And>q. q \<noteq> NULL \<Longrightarrow> \<forall>c. ctx q \<noteq> Some (PSA_HASH, c) \<Longrightarrow>
           \<forall>slot \<in> set (psa_spm_hash_clones w). source_operation slot \<noteq> q"
    and "\<And>q c. ctx q = Some (PSA_HASH, c) \<Longrightarrow> clone_owner_inv c q (psa_spm_hash_clones w)"
  using assms unfolding session_inv_def by blast+

lemma session_inv_not_live:
  assumes inv: "session_inv ctx w" and q: "q \<noteq> NULL" "q \<notin> heap w"
  shows "\<forall>slot \<in> set (psa_spm_hash_clones w). source_operation slot \<noteq> q"
proof -
  from session_inv_D(2) [OF inv, of q] q(2) have "ctx q = None" by blast
  then show ?thesis using session_inv_D(3) [OF inv q(1)] by simp
qed

lemma session_inv_boot:
  assumes "\<forall>slot \<in> set (psa_spm_hash_clones w). source_operation slot = NULL"
  shows "session_inv Map.empty w"
  using assms by (auto simp: session_inv_def)

lemma serve_other_panics:
  "msg_type msg = PSA_IPC_OTHER n \<Longrightarrow> serve env s msg iv w = Panic w"
  by (simp add: serve_handler_set)

lemma session_inv_serve:
  assumes inv: "session_inv ctx w" and ok: "of_session ctx s msg"
    and run: "serve env s msg iv w = Done u w'"
  shows "session_inv (attach ctx s msg (drop (length (trace w)) (trace w'))) w'"
proof -
  note null = session_inv_D(1) [OF inv]
  note live = session_inv_D(2) [OF inv]
  note noref = session_inv_D(3) [OF inv]
  note owner = session_inv_D(4) [OF inv]
  from run have fin: "final (serve env s msg iv w) = w'" by simp
  have nn: "\<And>q. ctx q \<noteq> None \<Longrightarrow> q \<noteq> NULL" using null by auto
  show ?thesis
  proof (cases "msg_type msg")
    case (PSA_IPC_OTHER n)
    with run show ?thesis by (simp add: serve_other_panics)
  next
    case PSA_IPC_CONNECT
    let ?A = "set (attached (drop (length (trace w)) (trace w')))"
    let ?ctx = "attach ctx s msg (drop (length (trace w)) (trace w'))"
    from serve_connect_attached [OF PSA_IPC_CONNECT run]
    have pool: "psa_spm_hash_clones w' = psa_spm_hash_clones w"
      and heap: "heap w \<subseteq> heap w'"
      and fresh: "\<And>q. q \<in> ?A \<Longrightarrow> q \<noteq> NULL \<and> q \<notin> heap w \<and> q \<in> heap w'"
      by blast+
    have ctx': "\<And>q. ?ctx q = (if q \<in> ?A then Some (s, client_id msg) else ctx q)"
      by (simp add: attach_def PSA_IPC_CONNECT fold_attach)
    have unref: "\<And>q. q \<in> ?A \<Longrightarrow>
        \<forall>slot \<in> set (psa_spm_hash_clones w). source_operation slot \<noteq> q"
      using fresh session_inv_not_live [OF inv] by blast
    show ?thesis
      unfolding session_inv_def
    proof (intro conjI allI impI)
      show "?ctx NULL = None" using fresh null by (auto simp: ctx')
    next
      fix q assume "?ctx q \<noteq> None"
      then show "q \<in> heap w'" using fresh live heap by (auto simp: ctx' split: if_splits)
    next
      fix q assume "q \<noteq> NULL \<and> (\<forall>c. ?ctx q \<noteq> Some (PSA_HASH, c))"
      then show "\<forall>slot \<in> set (psa_spm_hash_clones w'). source_operation slot \<noteq> q"
        using unref [of q] noref [of q] by (auto simp: ctx' pool split: if_splits)
    next
      fix q c assume "?ctx q = Some (PSA_HASH, c)"
      then show "clone_owner_inv c q (psa_spm_hash_clones w')"
        using unref [of q] owner [of q c]
        by (auto simp: ctx' pool clone_owner_inv_initial split: if_splits)
    qed
  next
    case PSA_IPC_DISCONNECT
    let ?r = "rhandle msg"
    have ctx': "attach ctx s msg (drop (length (trace w)) (trace w')) = ctx(?r := None)"
      by (simp add: attach_def PSA_IPC_DISCONNECT)
    from ok PSA_IPC_DISCONNECT have r: "?r = NULL \<or> ctx ?r = Some (s, client_id msg)"
      by (simp add: of_session_def)
    show ?thesis
      unfolding session_inv_def ctx'
    proof (intro conjI allI impI)
      show "(ctx(?r := None)) NULL = None" using null by simp
    next
      fix q assume "(ctx(?r := None)) q \<noteq> None"
      then have q: "q \<noteq> ?r" "ctx q \<noteq> None" by (auto split: if_splits)
      have "rhandle msg = q \<longrightarrow> msg_type msg = PSA_IPC_CALL" using q(1) by simp
      from keeps_serve [OF live [OF q(2)] nn [OF q(2)] this, of env s iv]
      have "q \<in> heap (final (serve env s msg iv w))" unfolding keeps_def by blast
      then show "q \<in> heap w'" unfolding fin .
    next
      fix q assume a: "q \<noteq> NULL \<and> (\<forall>c. (ctx(?r := None)) q \<noteq> Some (PSA_HASH, c))"
      show "\<forall>slot \<in> set (psa_spm_hash_clones w'). source_operation slot \<noteq> q"
      proof (cases "q = ?r \<and> s = PSA_HASH")
        case True
        with a r have "ctx q = Some (PSA_HASH, client_id msg)" by auto
        from owner [OF this] have "clone_owner_inv (client_id msg) q (psa_spm_hash_clones w)" .
        moreover have "q \<noteq> NULL" using a by blast
        moreover have "rhandle msg = q" using True by blast
        ultimately
        have "\<forall>slot \<in> set (psa_spm_hash_clones (final (serve env PSA_HASH msg iv w))).
                source_operation slot \<noteq> q"
          using PSA_IPC_DISCONNECT by (intro hash_disconnect_clears)
        moreover have "s = PSA_HASH" using True by blast
        ultimately show ?thesis using fin by blast
      next
        case False
        have "\<forall>c. ctx q \<noteq> Some (PSA_HASH, c)"
        proof (cases "q = ?r")
          case True
          with False a r show ?thesis by auto
        next
          case False
          with a show ?thesis by simp
        qed
        with noref [of q] a
        have "\<forall>slot \<in> set (psa_spm_hash_clones w). source_operation slot \<noteq> q" by blast
        moreover have "s = PSA_HASH \<longrightarrow> rhandle msg \<noteq> q" using False by auto
        ultimately
        have "\<forall>slot \<in> set (psa_spm_hash_clones (final (serve env s msg iv w))).
                source_operation slot \<noteq> q"
          using a by (intro no_reference_serve) simp_all
        then show ?thesis unfolding fin .
      qed
    next
      fix q c assume "(ctx(?r := None)) q = Some (PSA_HASH, c)"
      then have q: "q \<noteq> ?r" "ctx q = Some (PSA_HASH, c)" by (auto split: if_splits)
      then have "q \<noteq> NULL" using nn [of q] by simp
      moreover have "s = PSA_HASH \<longrightarrow> rhandle msg = q \<longrightarrow> client_id msg = c"
        using q(1) by simp
      ultimately
      have "clone_owner_inv c q (psa_spm_hash_clones (final (serve env s msg iv w)))"
        by (intro clone_owner_inv_serve owner [OF q(2)])
      then show "clone_owner_inv c q (psa_spm_hash_clones w')" unfolding fin .
    qed
  next
    case PSA_IPC_CALL
    have ctx': "attach ctx s msg (drop (length (trace w)) (trace w')) = ctx"
      by (simp add: attach_def PSA_IPC_CALL)
    from ok PSA_IPC_CALL
    have r: "rhandle msg = NULL \<or> ctx (rhandle msg) = Some (s, client_id msg)"
      by (simp add: of_session_def)
    show ?thesis
      unfolding session_inv_def ctx'
    proof (intro conjI allI impI)
      show "ctx NULL = None" by (rule null)
    next
      fix q assume q: "ctx q \<noteq> None"
      have "rhandle msg = q \<longrightarrow> msg_type msg = PSA_IPC_CALL" using PSA_IPC_CALL by simp
      from keeps_serve [OF live [OF q] nn [OF q] this, of env s iv]
      have "q \<in> heap (final (serve env s msg iv w))" unfolding keeps_def by blast
      then show "q \<in> heap w'" unfolding fin .
    next
      fix q assume a: "q \<noteq> NULL \<and> (\<forall>c. ctx q \<noteq> Some (PSA_HASH, c))"
      with noref [of q]
      have "\<forall>slot \<in> set (psa_spm_hash_clones w). source_operation slot \<noteq> q" by blast
      moreover have "s = PSA_HASH \<longrightarrow> rhandle msg \<noteq> q" using a r by auto
      ultimately
      have "\<forall>slot \<in> set (psa_spm_hash_clones (final (serve env s msg iv w))).
              source_operation slot \<noteq> q"
        using a by (intro no_reference_serve) simp_all
      then show "\<forall>slot \<in> set (psa_spm_hash_clones w'). source_operation slot \<noteq> q"
        unfolding fin .
    next
      fix q c assume q: "ctx q = Some (PSA_HASH, c)"
      then have "q \<noteq> NULL" using nn [of q] by simp
      moreover have "s = PSA_HASH \<longrightarrow> rhandle msg = q \<longrightarrow> client_id msg = c"
        using q r nn [of q] by auto
      ultimately
      have "clone_owner_inv c q (psa_spm_hash_clones (final (serve env s msg iv w)))"
        by (intro clone_owner_inv_serve owner [OF q])
      then show "clone_owner_inv c q (psa_spm_hash_clones w')" unfolding fin .
    qed
  qed
qed

subsection \<open>A connection from Connect to Disconnect\<close>

lemma session_run:
  assumes "session_inv ctx w" and "in_session env ctx (ms @ rest) w"
    and "serve_all env ms w = Done u w'"
  shows "\<exists>ctx'. session_inv ctx' w' \<and> in_session env ctx' rest w'"
  using assms
proof (induction ms arbitrary: ctx w)
  case Nil
  then show ?case by auto
next
  case (Cons x ms)
  obtain s m iv where x: "x = (s, m, iv)" by (cases x)
  show ?case
  proof (cases "serve env s m iv w")
    case (Done v w1)
    let ?ctx = "attach ctx s m (drop (length (trace w)) (trace w1))"
    from Cons.prems(2) x Done have ok: "of_session ctx s m"
      and rest: "in_session env ?ctx (ms @ rest) w1" by simp_all
    from session_inv_serve [OF Cons.prems(1) ok Done] have "session_inv ?ctx w1" .
    moreover from Cons.prems(3) x Done have "serve_all env ms w1 = Done u w'" by simp
    ultimately show ?thesis using rest by (intro Cons.IH)
  next
    case (Panic w1)
    with Cons.prems(3) x show ?thesis by simp
  next
    case (Undefined w1)
    with Cons.prems(3) x show ?thesis by simp
  qed
qed

lemma session_run_keeps:
  assumes "session_inv ctx w" and "in_session env ctx (ms @ rest) w"
    and "ctx p = Some (s, c)"
    and "\<forall>(s', m, iv) \<in> set ms. rhandle m = p \<longrightarrow> msg_type m = PSA_IPC_CALL"
  shows "keeps p w (serve_all env ms w) \<and>
         (\<forall>u w'. serve_all env ms w = Done u w' \<longrightarrow>
            (\<exists>ctx'. session_inv ctx' w' \<and> in_session env ctx' rest w' \<and>
                    ctx' p = Some (s, c)))"
  using assms
proof (induction ms arbitrary: ctx w)
  case Nil
  from session_inv_D(2) [OF Nil(1), of p] Nil(3) have "p \<in> heap w" by simp
  with Nil show ?case by auto
next
  case (Cons x ms)
  obtain s' m iv where x: "x = (s', m, iv)" by (cases x)
  from session_inv_D(2) [OF Cons.prems(1), of p] Cons.prems(3) have live: "p \<in> heap w"
    by simp
  from session_inv_D(1) [OF Cons.prems(1)] Cons.prems(3) have nn: "p \<noteq> NULL" by auto
  from Cons.prems(4) x have only: "rhandle m = p \<longrightarrow> msg_type m = PSA_IPC_CALL"
    and only': "\<forall>(s', m, iv) \<in> set ms. rhandle m = p \<longrightarrow> msg_type m = PSA_IPC_CALL"
    by auto
  note k1 = keeps_serve [OF live nn only, of env s' iv]
  show ?case
  proof (cases "serve env s' m iv w")
    case (Panic w1)
    with k1 show ?thesis by (simp add: x)
  next
    case (Undefined w1)
    with k1 show ?thesis by (simp add: x)
  next
    case (Done v w1)
    let ?d = "drop (length (trace w)) (trace w1)"
    let ?ctx = "attach ctx s' m ?d"
    from Cons.prems(2) x Done have ok: "of_session ctx s' m"
      and rest: "in_session env ?ctx (ms @ rest) w1" by simp_all
    from session_inv_serve [OF Cons.prems(1) ok Done] have inv1: "session_inv ?ctx w1" .
    have ctxp: "?ctx p = Some (s, c)"
    proof (cases "msg_type m")
      case PSA_IPC_CONNECT
      from serve_connect_attached [OF this Done] live have "p \<notin> set (attached ?d)" by blast
      then show ?thesis using Cons.prems(3) by (simp add: attach_def PSA_IPC_CONNECT fold_attach)
    next
      case PSA_IPC_DISCONNECT
      with only have "rhandle m \<noteq> p" by auto
      then show ?thesis using Cons.prems(3) by (simp add: attach_def PSA_IPC_DISCONNECT)
    next
      case PSA_IPC_CALL
      then show ?thesis using Cons.prems(3) by (simp add: attach_def)
    next
      case (PSA_IPC_OTHER n)
      then show ?thesis using Cons.prems(3) by (simp add: attach_def)
    qed
    from Cons.IH [OF inv1 rest ctxp only']
    have k2: "keeps p w1 (serve_all env ms w1)"
      and r2: "\<forall>u w'. serve_all env ms w1 = Done u w' \<longrightarrow>
            (\<exists>ctx'. session_inv ctx' w' \<and> in_session env ctx' rest w' \<and>
                    ctx' p = Some (s, c))" by blast+
    from k1 Done obtain d where d: "trace w1 = trace w @ d" "Free p \<notin> set d" by auto
    from d k2 have "keeps p w (serve_all env ms w1)" by (rule keeps_trans)
    with r2 show ?thesis by (simp add: x Done)
  qed
qed

text \<open>
  Claim C6. Start the partition in a state where no clone slot has a source (the pool is
  zero-initialised), and let it serve messages that the channel may deliver: each
  Connect carries no context, and every other message carries no context or the context
  attached to a connection of its service and caller. Among them take a connection to
  the MAC, hash or cipher service: its Connect, whose allocation gives the context \<open>p\<close>;
  then any messages, of this or of other connections, where the messages that carry
  \<open>p\<close> are Calls, succeeding or failing; then its Disconnect; and let no message from
  the Connect on panic or overrun a destination. Then the events from the Connect on
  are the allocation, the attachment of \<open>p\<close> and the reply, then events none of which
  frees \<open>p\<close>, then the abort operation of the service on \<open>p\<close>, for a hash connection the
  call of \<^verbatim>\<open>destroy_hash_clone\<close> for \<open>p\<close>, the release of \<open>p\<close> and the reply: \<open>p\<close> is
  released exactly once, at Disconnect, after the abort and, for hash, after the slots
  were cleared. The release is applied to the state \<open>w'\<close> that these events lead to, in
  which \<open>p\<close> is live and, for a hash connection, no clone slot references \<open>p\<close>.
\<close>

theorem operation_context_released_once:
  assumes boot: "\<forall>slot \<in> set (psa_spm_hash_clones w0). source_operation slot = NULL"
    and pre: "serve_all env pre w0 = Done () w"
    and session: "in_session env Map.empty (pre @ (s, connect) # ms @ [(s, disconnect)]) w0"
    and svc: "s \<in> {PSA_MAC, PSA_HASH, PSA_SYMMETRIC}"
    and con: "msg_type (fst connect) = PSA_IPC_CONNECT"
    and dis: "msg_type (fst disconnect) = PSA_IPC_DISCONNECT" "rhandle (fst disconnect) = p"
    and alloc: "allocator env (trace w) (context_size env s) = p" "p \<notin> insert NULL (heap w)"
    and only: "\<forall>(s', m, iv) \<in> set ms. rhandle m = p \<longrightarrow> msg_type m = PSA_IPC_CALL"
    and run: "returned (lifetime env s connect ms disconnect w) = Some ()"
  shows "\<exists>d w'.
           trace (final (lifetime env s connect ms disconnect w)) =
             trace w @
             [Calloc (context_size env s), SetRhandle (msg_handle (fst connect)) p,
              Reply (msg_handle (fst connect)) PSA_SUCCESS] @ d @
             [Engine (abort_call s p)] @ (if s = PSA_HASH then [DestroyHashClone p] else []) @
             [Free p, Reply (msg_handle (fst disconnect)) PSA_SUCCESS] \<and>
           Free p \<notin> set d \<and>
           final (lifetime env s connect ms disconnect w) =
             psa_reply (msg_handle (fst disconnect)) PSA_SUCCESS (mbedtls_free p w') \<and>
           trace w' =
             trace w @
             [Calloc (context_size env s), SetRhandle (msg_handle (fst connect)) p,
              Reply (msg_handle (fst connect)) PSA_SUCCESS] @ d @
             [Engine (abort_call s p)] @ (if s = PSA_HASH then [DestroyHashClone p] else []) \<and>
           p \<in> heap w' \<and>
           p \<notin> heap (final (lifetime env s connect ms disconnect w)) \<and>
           (s = PSA_HASH \<longrightarrow>
              (\<forall>slot \<in> set (psa_spm_hash_clones w'). source_operation slot \<noteq> p))"
proof -
  let ?c = "client_id (fst connect)"
  let ?d1 = "[Calloc (context_size env s), SetRhandle (msg_handle (fst connect)) p,
              Reply (msg_handle (fst connect)) PSA_SUCCESS]"
  let ?w1 = "w\<lparr>heap := insert p (heap w), trace := trace w @ ?d1\<rparr>"
  let ?rest = "ms @ [(s, disconnect)]"
  obtain mc ic where mc: "connect = (mc, ic)" by (cases connect)
  have p: "p \<noteq> NULL" "p \<notin> heap w" using alloc(2) by simp_all
  from session_run [OF session_inv_boot [OF boot] _ pre, of "(s, connect) # ?rest"] session
  obtain ctx where inv: "session_inv ctx w"
    and sess: "in_session env ctx ((s, mc, ic) # ?rest) w" unfolding mc by auto
  have c1: "serve env s (fst connect) (snd connect) w = Done () ?w1"
    by (rule serve_connect [OF svc con alloc])
  let ?ctx1 = "attach ctx s (fst connect) (drop (length (trace w)) (trace ?w1))"
  from sess c1 have ok: "of_session ctx s (fst connect)"
    and sess1: "in_session env ?ctx1 ?rest ?w1" unfolding mc by simp_all
  from session_inv_serve [OF inv ok c1] have inv1: "session_inv ?ctx1 ?w1" .
  have ctx1p: "?ctx1 p = Some (s, ?c)" by (simp add: attach_def con)
  note frame = session_run_keeps [OF inv1 sess1 ctx1p only]
  show ?thesis
  proof (cases "serve_all env ms ?w1")
    case (Panic w2)
    with run c1 show ?thesis by (simp add: lifetime_def)
  next
    case (Undefined w2)
    with run c1 show ?thesis by (simp add: lifetime_def)
  next
    case (Done u w2)
    with frame obtain d ctx2 where d: "p \<in> heap w2" "trace w2 = trace ?w1 @ d" "Free p \<notin> set d"
      and inv2: "session_inv ctx2 w2" and ctx2p: "ctx2 p = Some (s, ?c)"
      by auto
    let ?w3 = "(if s = PSA_HASH then destroy_hash_clone_global p else (\<lambda>w. w))
                 (emit (Engine (abort_call s p)) w2)"
    have fin: "lifetime env s connect ms disconnect w =
                 Done () (psa_reply (msg_handle (fst disconnect)) PSA_SUCCESS
                            (mbedtls_free p ?w3))"
      using c1 Done serve_disconnect [OF svc dis p(1), of env "snd disconnect" w2]
      by (simp add: lifetime_def)
    have tr: "trace ?w3 = trace w2 @ [Engine (abort_call s p)] @
                (if s = PSA_HASH then [DestroyHashClone p] else [])"
      by (simp add: destroy_hash_clone_global_def emit_def)
    have hp: "p \<in> heap ?w3"
      using d(1) by (simp add: destroy_hash_clone_global_def emit_def)
    have cl: "s = PSA_HASH \<longrightarrow>
                (\<forall>slot \<in> set (psa_spm_hash_clones ?w3). source_operation slot \<noteq> p)"
    proof
      assume h: "s = PSA_HASH"
      with ctx2p session_inv_D(4) [OF inv2, of p ?c]
      have "clone_owner_inv ?c p (psa_spm_hash_clones w2)" by simp
      from destroy_hash_clone_clears [OF this p(1)] h
      show "\<forall>slot \<in> set (psa_spm_hash_clones ?w3). source_operation slot \<noteq> p"
        by (simp add: destroy_hash_clone_global_def emit_def)
    qed
    have "trace (final (lifetime env s connect ms disconnect w)) =
             trace w @ ?d1 @ d @
             [Engine (abort_call s p)] @ (if s = PSA_HASH then [DestroyHashClone p] else []) @
             [Free p, Reply (msg_handle (fst disconnect)) PSA_SUCCESS] \<and>
           Free p \<notin> set d \<and>
           final (lifetime env s connect ms disconnect w) =
             psa_reply (msg_handle (fst disconnect)) PSA_SUCCESS (mbedtls_free p ?w3) \<and>
           trace ?w3 =
             trace w @ ?d1 @ d @
             [Engine (abort_call s p)] @ (if s = PSA_HASH then [DestroyHashClone p] else []) \<and>
           p \<in> heap ?w3 \<and>
           p \<notin> heap (final (lifetime env s connect ms disconnect w)) \<and>
           (s = PSA_HASH \<longrightarrow>
              (\<forall>slot \<in> set (psa_spm_hash_clones ?w3). source_operation slot \<noteq> p))"
      using d(2,3) tr hp cl
      by (simp add: fin psa_reply_def mbedtls_free_def emit_def)
    then show ?thesis by blast
  qed
qed

lemmas run_defs =
  serve_def message_handler_def hash_on_connect_def
  hash_on_call_def hash_on_disconnect_def step_defs reserve_hash_clone_def
  destroy_hash_clone_def scan_clones.simps hash_connect_def hash_clone_begin_def
  hash_disconnect_def env_ok_def world0_def msg_of_def in_vec_of_def
  engine_success_def zeroed_clone_def NULL_def Let_def
  MAX_CONCURRENT_HASH_CLONES_def numeral_2_eq_2

theorem operation_context_released_once_witness:
  "returned (lifetime env_ok PSA_HASH hash_connect [hash_clone_begin] hash_disconnect world0) =
     Some () \<and>
   in_session env_ok Map.empty
     ([] @ (PSA_HASH, hash_connect) # [hash_clone_begin] @ [(PSA_HASH, hash_disconnect)])
     world0 \<and>
   trace (final (lifetime env_ok PSA_HASH hash_connect [hash_clone_begin] hash_disconnect
                   world0)) =
     [Calloc 64, SetRhandle 1 1, Reply 1 PSA_SUCCESS,
      Read 1 0 12, Write 1 0 (Some 0) 4, Reply 1 PSA_SUCCESS,
      Engine (Hash (psa_hash_abort 1)), DestroyHashClone 1, Free 1, Reply 1 PSA_SUCCESS] \<and>
   (\<exists>d w'.
      trace (final (lifetime env_ok PSA_HASH hash_connect [hash_clone_begin] hash_disconnect
                      world0)) =
        trace world0 @ [Calloc (context_size env_ok PSA_HASH), SetRhandle 1 1,
                        Reply 1 PSA_SUCCESS] @ d @
        [Engine (abort_call PSA_HASH 1), DestroyHashClone 1, Free 1, Reply 1 PSA_SUCCESS] \<and>
      Free 1 \<notin> set d \<and>
      final (lifetime env_ok PSA_HASH hash_connect [hash_clone_begin] hash_disconnect world0) =
        psa_reply 1 PSA_SUCCESS (mbedtls_free 1 w') \<and>
      trace w' =
        trace world0 @ [Calloc (context_size env_ok PSA_HASH), SetRhandle 1 1,
                        Reply 1 PSA_SUCCESS] @ d @
        [Engine (abort_call PSA_HASH 1), DestroyHashClone 1] \<and>
      1 \<in> heap w' \<and>
      1 \<notin> heap (final (lifetime env_ok PSA_HASH hash_connect [hash_clone_begin]
                          hash_disconnect world0)) \<and>
      list_all (\<lambda>slot. source_operation slot \<noteq> 1) (psa_spm_hash_clones w'))"
proof -
  have run: "lifetime env_ok PSA_HASH hash_connect [hash_clone_begin] hash_disconnect world0 =
      Done () (world0\<lparr>heap := {},
        trace := [Calloc 64, SetRhandle 1 1, Reply 1 PSA_SUCCESS,
                  Read 1 0 12, Write 1 0 (Some 0) 4, Reply 1 PSA_SUCCESS,
                  Engine (Hash (psa_hash_abort 1)), DestroyHashClone 1, Free 1,
                  Reply 1 PSA_SUCCESS]\<rparr>)"
    by (simp add: lifetime_def run_defs)
  have session: "in_session env_ok Map.empty
      ([] @ (PSA_HASH, hash_connect) # [hash_clone_begin] @ [(PSA_HASH, hash_disconnect)])
      world0"
    by (simp add: run_defs of_session_def attach_def)
  have only: "\<forall>(s', m, iv) \<in> set [hash_clone_begin]. rhandle m = 1 \<longrightarrow>
               msg_type m = PSA_IPC_CALL"
    by (simp add: hash_clone_begin_def msg_of_def)
  have boot: "\<forall>slot \<in> set (psa_spm_hash_clones world0). source_operation slot = NULL"
    by (simp add: world0_def zeroed_clone_def)
  from run have ret: "returned (lifetime env_ok PSA_HASH hash_connect [hash_clone_begin]
                         hash_disconnect world0) = Some ()" by simp
  have pre: "serve_all env_ok [] world0 = Done () world0" by simp
  have svc: "PSA_HASH \<in> {PSA_MAC, PSA_HASH, PSA_SYMMETRIC}" by simp
  have con: "msg_type (fst hash_connect) = PSA_IPC_CONNECT"
    by (simp add: hash_connect_def msg_of_def)
  have dis: "msg_type (fst hash_disconnect) = PSA_IPC_DISCONNECT"
    "rhandle (fst hash_disconnect) = 1"
    by (simp_all add: hash_disconnect_def msg_of_def)
  have alloc: "allocator env_ok (trace world0) (context_size env_ok PSA_HASH) = 1"
    "1 \<notin> insert NULL (heap world0)"
    by (simp_all add: env_ok_def world0_def NULL_def)
  from operation_context_released_once
         [OF boot pre session svc con dis alloc only ret]
  show ?thesis
    using run session
    by (simp add: hash_connect_def hash_disconnect_def msg_of_def env_ok_def
          context_size_def list_all_iff)
qed

end
